theory Spec2Isabelle
  imports Complex_Main "HOL-Library.Sublist"
begin

section \<open>The entity store\<close>

text \<open>
  The tables of the Prisma schema are lists of rows, in the order the store returns them.
  Field names follow the schema; a name that several tables share carries the table's
  initial (\<open>u_id\<close>, \<open>b_id\<close>, \<open>br_id\<close>, \<open>u_status\<close>, \<open>b_status\<close>, \<open>br_status\<close>).
  Instants are milliseconds since the epoch, as a JavaScript \<open>Date\<close> holds them. Of the
  categories and the shelves the store keeps the keys, which the books refer to.
\<close>

datatype user_role = ADMIN | STAFF | USER

datatype user_status = ACTIVE | INACTIVE | SUSPENDED

datatype book_status = AVAILABLE | BOOK_BORROWED | MAINTENANCE | LOST

datatype borrowing_status = BORROWED | RETURNED | OVERDUE

datatype notification_type = N_OVERDUE | REMINDER | SYSTEM | INFO

record user =
  u_id :: string
  email :: string
  fullName :: string
  role :: user_role
  u_status :: user_status

record book =
  b_id :: string
  title :: string
  author :: string
  isbn :: "string option"
  categoryId :: "string option"
  shelfId :: "string option"
  copiesTotal :: int
  copiesAvailable :: int
  b_status :: book_status
  description :: "string option"
  publicationYear :: "int option"

record borrowing =
  br_id :: string
  userId :: string
  bookId :: string
  borrowDate :: int
  expectedReturnDate :: int
  actualReturnDate :: "int option"
  br_status :: borrowing_status
  br_notes :: "string option"

record notification =
  n_userId :: string
  n_type :: notification_type
  n_title :: string
  message :: string
  isRead :: bool
  createdAt :: int

text \<open>An audit row keeps the actor, the book and the action; its JSON payloads and the
  caller's address play no part in any rule and are left out.\<close>

record audit_log =
  a_userId :: string
  a_bookId :: "string option"
  action :: string

record store =
  users :: "user list"
  books :: "book list"
  borrowings :: "borrowing list"
  notifications :: "notification list"
  auditLogs :: "audit_log list"
  categories :: "string list"
  shelves :: "string list"

text \<open>The error codes the handlers throw as \<open>AppError\<close>, and those the error middleware
  answers for what the Prisma client and the database raise: \<open>NOT_FOUND\<close> for P2025 (an
  update of a row that is not there), \<open>DUPLICATE_ENTRY\<close> for P2002 (a unique index), and
  \<open>STORE_REFUSED\<close> for every other refusal of a write (a value the column cannot hold, a
  missing referenced row), which the middleware answers with status 500.\<close>

datatype app_error =
    FORBIDDEN
  | VALIDATION_ERROR
  | BOOK_NOT_FOUND
  | NO_COPIES_AVAILABLE
  | USER_NOT_FOUND
  | INACTIVE_USER
  | ALREADY_BORROWED
  | BORROWING_LIMIT_REACHED
  | BORROWING_NOT_FOUND
  | ALREADY_RETURNED
  | INVALID_STATUS
  | ISBN_EXISTS
  | NOT_FOUND
  | DUPLICATE_ENTRY
  | STORE_REFUSED

definition msPerDay :: int where
  "msPerDay = 1000 * 60 * 60 * 24"

subsection \<open>Store calls\<close>

definition findUser :: "store \<Rightarrow> string \<Rightarrow> user option" where
  "findUser s k = find (\<lambda>u. u_id u = k) (users s)"

definition findBook :: "store \<Rightarrow> string \<Rightarrow> book option" where
  "findBook s k = find (\<lambda>b. b_id b = k) (books s)"

definition findBorrowing :: "store \<Rightarrow> string \<Rightarrow> borrowing option" where
  "findBorrowing s k = find (\<lambda>b. br_id b = k) (borrowings s)"

text \<open>\<open>prisma.book.update\<close>: the row with the key is rewritten; a missing row is P2025.\<close>

definition updateBookRow :: "store \<Rightarrow> string \<Rightarrow> (book \<Rightarrow> book) \<Rightarrow> store option" where
  "updateBookRow s k f =
     (case findBook s k of
        None \<Rightarrow> None
      | Some _ \<Rightarrow> Some (s\<lparr>books := map (\<lambda>b. if b_id b = k then f b else b) (books s)\<rparr>))"

definition updateBorrowingRow ::
  "store \<Rightarrow> string \<Rightarrow> (borrowing \<Rightarrow> borrowing) \<Rightarrow> store option" where
  "updateBorrowingRow s k f =
     (case findBorrowing s k of
        None \<Rightarrow> None
      | Some _ \<Rightarrow>
          Some (s\<lparr>borrowings := map (\<lambda>b. if br_id b = k then f b else b) (borrowings s)\<rparr>))"

definition createBorrowing :: "store \<Rightarrow> borrowing \<Rightarrow> store" where
  "createBorrowing s b = s\<lparr>borrowings := borrowings s @ [b]\<rparr>"

definition createNotification :: "store \<Rightarrow> notification \<Rightarrow> store" where
  "createNotification s n = s\<lparr>notifications := notifications s @ [n]\<rparr>"

definition createAuditLog :: "store \<Rightarrow> audit_log \<Rightarrow> store" where
  "createAuditLog s a = s\<lparr>auditLogs := auditLogs s @ [a]\<rparr>"

subsection \<open>JavaScript values\<close>

text \<open>
  A body field that may be absent is an option. A number of a body is what \<open>JSON.parse\<close>
  made of it: a double, here the rational it is, or an infinity, which is what a literal
  past the doubles is read as. \<open>!x\<close> holds of an absent field, of the empty string and of
  zero; \<open>x || d\<close> falls through on an absent field, on \<open>NaN\<close> (for the \<open>parseInt\<close> of the
  environment, \<open>None\<close>) and on zero. \<open>lessNum\<close> is \<open><\<close> on numbers.
\<close>

datatype jsnum = Finite rat | PlusInfinity | MinusInfinity

definition truthy :: "string option \<Rightarrow> bool" where
  "truthy x = (case x of None \<Rightarrow> False | Some v \<Rightarrow> v \<noteq> [])"

definition js_or :: "int option \<Rightarrow> int \<Rightarrow> int" where
  "js_or x d = (case x of None \<Rightarrow> d | Some n \<Rightarrow> if n = 0 then d else n)"

fun lessNum :: "jsnum \<Rightarrow> jsnum \<Rightarrow> bool" where
  "lessNum (Finite x) (Finite y) = (x < y)"
| "lessNum (Finite x) PlusInfinity = True"
| "lessNum (Finite x) MinusInfinity = False"
| "lessNum PlusInfinity b = False"
| "lessNum MinusInfinity (Finite y) = True"
| "lessNum MinusInfinity PlusInfinity = True"
| "lessNum MinusInfinity MinusInfinity = False"

text \<open>Where a number has to be whole (the day of \<open>setDate\<close>) its fraction is cut off,
  towards zero.\<close>

definition js_trunc :: "rat \<Rightarrow> int" where
  "js_trunc x = (if 0 \<le> x then \<lfloor>x\<rfloor> else \<lceil>x\<rceil>)"

text \<open>
  The process environment and the host: \<open>parseInt\<close> of the two limits (\<open>None\<close> when unset
  or not a number); the host's date format; the local time zone, as the offset from UTC
  at a UTC instant (\<open>tzaUtc\<close>) and at a local time (\<open>tzaLocal\<close>); the digit that
  \<open>Number.prototype.toString\<close> puts first when it prints a number in exponent notation,
  signed as the number is (\<open>exponentLead\<close>); the double nearest to a number, which is
  what an addition of two doubles gives of their sum (\<open>toDouble\<close>); and the instants the
  Prisma client and a \<open>TIMESTAMP(3)\<close> column take (\<open>storesInstant\<close>).
\<close>

record env =
  MAX_BOOKS_PER_USER :: "int option"
  MAX_BORROW_DAYS :: "int option"
  toLocaleDateString :: "int \<Rightarrow> string"
  tzaUtc :: "int \<Rightarrow> int"
  tzaLocal :: "int \<Rightarrow> int"
  exponentLead :: "rat \<Rightarrow> int"
  toDouble :: "rat \<Rightarrow> rat"
  storesInstant :: "int \<Rightarrow> bool"

text \<open>\<open>parseInt\<close> of a number reads the digits before the point of its printed form. A
  number of \<open>10^21\<close> or more, or a nonzero one below \<open>10^-6\<close>, is printed in exponent
  notation, and what is read is its first digit; of every other double it is the whole
  part. An infinity is printed as a word, and there is nothing to read: the result is
  \<open>NaN\<close>, here \<open>None\<close>.\<close>

definition parseIntNum :: "env \<Rightarrow> jsnum \<Rightarrow> int option" where
  "parseIntNum e x =
     (case x of
        Finite q \<Rightarrow>
          Some (if 10 ^ 21 \<le> \<bar>q\<bar> \<or> (q \<noteq> 0 \<and> \<bar>q\<bar> < 1 / 10 ^ 6) then exponentLead e q
                else js_trunc q)
      | _ \<Rightarrow> None)"

subsection \<open>Dates\<close>

text \<open>
  A \<open>Date\<close> holds a time value of at most \<open>maxTime\<close> either way, or none: then it is an
  Invalid Date, which the Prisma client refuses to write. \<open>timeClip\<close> makes the time value
  of a time. \<open>dateFromTime\<close> is the day of the month of a time value on the Gregorian
  calendar, and \<open>getDate\<close> that of the local time. \<open>setDate\<close> is the time
  \<open>Date.prototype.setDate\<close> computes for a (whole) day of the month, before it is
  clipped: the local time moved by the difference of the days, read as a local time
  again.
\<close>

definition maxTime :: int where
  "maxTime = 8640000000000000"

definition validTime :: "int \<Rightarrow> bool" where
  "validTime t = (- maxTime \<le> t \<and> t \<le> maxTime)"

definition timeClip :: "int \<Rightarrow> int option" where
  "timeClip t = (if validTime t then Some t else None)"

definition dateFromTime :: "int \<Rightarrow> int" where
  "dateFromTime t =
     (let z = t div msPerDay + 719468;
          doe = z mod 146097;
          yoe = (doe - doe div 1460 + doe div 36524 - doe div 146096) div 365;
          doy = doe - (365 * yoe + yoe div 4 - yoe div 100);
          mp = (5 * doy + 2) div 153
      in doy - (153 * mp + 2) div 5 + 1)"

definition getDate :: "env \<Rightarrow> int \<Rightarrow> int" where
  "getDate e t = dateFromTime (t + tzaUtc e t)"

definition setDate :: "env \<Rightarrow> int \<Rightarrow> int \<Rightarrow> int" where
  "setDate e t dt =
     (let lt = t + tzaUtc e t;
          nl = lt + (dt - dateFromTime lt) * msPerDay
      in nl - tzaLocal e nl)"

text \<open>A date can be written when it is a valid \<open>Date\<close> and the store takes its instant.\<close>

definition storable :: "env \<Rightarrow> int option \<Rightarrow> bool" where
  "storable e d = (case d of None \<Rightarrow> False | Some t \<Rightarrow> storesInstant e t)"

section \<open>Borrowing controller\<close>

definition takeCopy :: "book \<Rightarrow> book" where
  "takeCopy b = b\<lparr>copiesAvailable := copiesAvailable b - 1\<rparr>"

record borrow_req =
  req_user_id :: string
  req_user_role :: user_role
  body_userId :: "string option"
  body_bookId :: "string option"
  body_borrowDays :: "jsnum option"
  body_notes :: "string option"

text \<open>The borrower: the caller when the body names nobody, else the named user.\<close>

definition borrowerOf :: "borrow_req \<Rightarrow> string" where
  "borrowerOf req =
     (case body_userId req of
        None \<Rightarrow> req_user_id req
      | Some v \<Rightarrow> if v = [] then req_user_id req else v)"

definition bookIdOf :: "borrow_req \<Rightarrow> string" where
  "bookIdOf req = (case body_bookId req of None \<Rightarrow> [] | Some v \<Rightarrow> v)"

definition forOtherDenied :: "borrow_req \<Rightarrow> bool" where
  "forOtherDenied req =
     (truthy (body_userId req) \<and> body_userId req \<noteq> Some (req_user_id req)
      \<and> req_user_role req \<noteq> ADMIN)"

definition existingBorrowing :: "store \<Rightarrow> string \<Rightarrow> string \<Rightarrow> borrowing option" where
  "existingBorrowing s uid bid =
     find (\<lambda>b. userId b = uid \<and> bookId b = bid \<and> br_status b = BORROWED) (borrowings s)"

definition activeBorrowings :: "store \<Rightarrow> string \<Rightarrow> int" where
  "activeBorrowings s uid =
     int (length (filter (\<lambda>b. userId b = uid \<and> br_status b = BORROWED) (borrowings s)))"

text \<open>\<open>days = borrowDays || parseInt(process.env.MAX_BORROW_DAYS) || 14\<close>, and the date
  \<open>setDate(getDate() + days)\<close> makes of the instant of the request: the sum is a double,
  its whole part the day; days that are not finite leave an Invalid Date.\<close>

definition daysOf :: "env \<Rightarrow> borrow_req \<Rightarrow> jsnum" where
  "daysOf e req =
     (case body_borrowDays req of
        None \<Rightarrow> Finite (of_int (js_or (MAX_BORROW_DAYS e) 14))
      | Some x \<Rightarrow> if x = Finite 0 then Finite (of_int (js_or (MAX_BORROW_DAYS e) 14)) else x)"

definition dueDate :: "env \<Rightarrow> int \<Rightarrow> borrow_req \<Rightarrow> int option" where
  "dueDate e now req =
     (case daysOf e req of
        Finite d \<Rightarrow>
          timeClip (setDate e now (js_trunc (toDouble e (of_int (getDate e now) + d))))
      | _ \<Rightarrow> None)"

text \<open>The row the create writes. Its expected return date is the time value of the
  handler's date; a row has no Invalid Date, and where the handler's date is one no row
  is written (the instant of the request stands in its place here).\<close>

definition newBorrowing :: "env \<Rightarrow> int \<Rightarrow> string \<Rightarrow> borrow_req \<Rightarrow> borrowing" where
  "newBorrowing e now nid req =
     \<lparr> br_id = nid,
       userId = borrowerOf req,
       bookId = bookIdOf req,
       borrowDate = now,
       expectedReturnDate = (case dueDate e now req of None \<Rightarrow> now | Some t \<Rightarrow> t),
       actualReturnDate = None,
       br_status = BORROWED,
       br_notes = body_notes req \<rparr>"

definition borrowedAudit :: "borrow_req \<Rightarrow> audit_log" where
  "borrowedAudit req =
     \<lparr> a_userId = req_user_id req, a_bookId = Some (bookIdOf req),
       action = ''BOOK_BORROWED'' \<rparr>"

definition borrowedNotification :: "env \<Rightarrow> int \<Rightarrow> book \<Rightarrow> borrowing \<Rightarrow> notification" where
  "borrowedNotification e now bk br =
     \<lparr> n_userId = userId br,
       n_type = INFO,
       n_title = ''Book Borrowed Successfully'',
       message = ''You have borrowed '' @ [CHR 0x22] @ title bk @ [CHR 0x22]
         @ ''. Please return it by '' @ toLocaleDateString e (expectedReturnDate br) @ ''.'',
       isRead = False,
       createdAt = now \<rparr>"

text \<open>
  \<open>borrowBook\<close>, one request run from its first line to its answer. \<open>now\<close> is the instant
  of the request and \<open>nid\<close> the key the store gives the new row. The result is the store
  after the request and the answer: \<open>Inl\<close> an error code, \<open>Inr\<close> the created borrowing.
  The create is the first write; it is refused, and nothing is written, when the expected
  return date cannot be stored.
\<close>

definition borrowBook ::
  "env \<Rightarrow> int \<Rightarrow> string \<Rightarrow> borrow_req \<Rightarrow> store \<Rightarrow> store \<times> (app_error + borrowing)" where
  "borrowBook e now nid req s =
     (if forOtherDenied req then (s, Inl FORBIDDEN)
      else if \<not> truthy (body_bookId req) then (s, Inl VALIDATION_ERROR)
      else
       (case findBook s (bookIdOf req) of
          None \<Rightarrow> (s, Inl BOOK_NOT_FOUND)
        | Some bk \<Rightarrow>
           (if copiesAvailable bk \<le> 0 then (s, Inl NO_COPIES_AVAILABLE)
            else
             (case findUser s (borrowerOf req) of
                None \<Rightarrow> (s, Inl USER_NOT_FOUND)
              | Some u \<Rightarrow>
                 (if u_status u \<noteq> ACTIVE then (s, Inl INACTIVE_USER)
                  else if existingBorrowing s (borrowerOf req) (bookIdOf req) \<noteq> None
                    then (s, Inl ALREADY_BORROWED)
                  else if js_or (MAX_BOOKS_PER_USER e) 5 \<le> activeBorrowings s (borrowerOf req)
                    then (s, Inl BORROWING_LIMIT_REACHED)
                  else if \<not> storable e (dueDate e now req) then (s, Inl STORE_REFUSED)
                  else
                   (let br = newBorrowing e now nid req;
                        s1 = createBorrowing s br
                    in (case updateBookRow s1 (bookIdOf req) takeCopy of
                          None \<Rightarrow> (s1, Inl NOT_FOUND)
                        | Some s2 \<Rightarrow>
                            (createNotification (createAuditLog s2 (borrowedAudit req))
                               (borrowedNotification e now bk br), Inr br))))))))"

subsection \<open>The same handler, one store call at a time\<close>

text \<open>
  Every store call of \<open>borrowBook\<close> is awaited, and nothing groups them into a transaction:
  between two awaits the event loop may run another request. A step below is one store
  call together with the synchronous code that consumes its answer; the program counter
  keeps the locals that live across the await.
\<close>

datatype borrow_pc =
    AtFindBook
  | AtFindUser book
  | AtFindExisting book
  | AtCount book
  | AtCreate book
  | AtUpdateBook book borrowing
  | AtAudit book borrowing
  | AtNotify book borrowing
  | Finished "app_error + borrowing"

fun borrow_step ::
  "env \<Rightarrow> int \<Rightarrow> string \<Rightarrow> borrow_req \<Rightarrow> borrow_pc \<Rightarrow> store \<Rightarrow> borrow_pc \<times> store" where
  "borrow_step e now nid req AtFindBook s =
     (if forOtherDenied req then (Finished (Inl FORBIDDEN), s)
      else if \<not> truthy (body_bookId req) then (Finished (Inl VALIDATION_ERROR), s)
      else
       (case findBook s (bookIdOf req) of
          None \<Rightarrow> (Finished (Inl BOOK_NOT_FOUND), s)
        | Some bk \<Rightarrow>
           (if copiesAvailable bk \<le> 0 then (Finished (Inl NO_COPIES_AVAILABLE), s)
            else (AtFindUser bk, s))))"
| "borrow_step e now nid req (AtFindUser bk) s =
     (case findUser s (borrowerOf req) of
        None \<Rightarrow> (Finished (Inl USER_NOT_FOUND), s)
      | Some u \<Rightarrow>
         (if u_status u \<noteq> ACTIVE then (Finished (Inl INACTIVE_USER), s)
          else (AtFindExisting bk, s)))"
| "borrow_step e now nid req (AtFindExisting bk) s =
     (if existingBorrowing s (borrowerOf req) (bookIdOf req) \<noteq> None
      then (Finished (Inl ALREADY_BORROWED), s)
      else (AtCount bk, s))"
| "borrow_step e now nid req (AtCount bk) s =
     (if js_or (MAX_BOOKS_PER_USER e) 5 \<le> activeBorrowings s (borrowerOf req)
      then (Finished (Inl BORROWING_LIMIT_REACHED), s)
      else (AtCreate bk, s))"
| "borrow_step e now nid req (AtCreate bk) s =
     (if \<not> storable e (dueDate e now req) then (Finished (Inl STORE_REFUSED), s)
      else (let br = newBorrowing e now nid req in (AtUpdateBook bk br, createBorrowing s br)))"
| "borrow_step e now nid req (AtUpdateBook bk br) s =
     (case updateBookRow s (bookIdOf req) takeCopy of
        None \<Rightarrow> (Finished (Inl NOT_FOUND), s)
      | Some s2 \<Rightarrow> (AtAudit bk br, s2))"
| "borrow_step e now nid req (AtAudit bk br) s =
     (AtNotify bk br, createAuditLog s (borrowedAudit req))"
| "borrow_step e now nid req (AtNotify bk br) s =
     (Finished (Inr br), createNotification s (borrowedNotification e now bk br))"
| "borrow_step e now nid req (Finished r) s = (Finished r, s)"

fun borrow_steps ::
  "nat \<Rightarrow> env \<Rightarrow> int \<Rightarrow> string \<Rightarrow> borrow_req \<Rightarrow> borrow_pc \<times> store \<Rightarrow> borrow_pc \<times> store" where
  "borrow_steps 0 e now nid req c = c"
| "borrow_steps (Suc n) e now nid req c =
     borrow_steps n e now nid req (borrow_step e now nid req (fst c) (snd c))"

text \<open>Two requests in flight: a call is its instant, the key of its new row and its
  request; a schedule says whose store call the store serves next.\<close>

datatype who = First | Second

type_synonym borrow_call = "int \<times> string \<times> borrow_req"

fun interleave ::
  "env \<Rightarrow> borrow_call \<Rightarrow> borrow_call \<Rightarrow> who list \<Rightarrow> borrow_pc \<times> borrow_pc \<times> store
     \<Rightarrow> borrow_pc \<times> borrow_pc \<times> store" where
  "interleave e c1 c2 [] cfg = cfg"
| "interleave e c1 c2 (First # ws) (p1, p2, s) =
     (case borrow_step e (fst c1) (fst (snd c1)) (snd (snd c1)) p1 s of
        (p1', s') \<Rightarrow> interleave e c1 c2 ws (p1', p2, s'))"
| "interleave e c1 c2 (Second # ws) (p1, p2, s) =
     (case borrow_step e (fst c2) (fst (snd c2)) (snd (snd c2)) p2 s of
        (p2', s') \<Rightarrow> interleave e c1 c2 ws (p1, p2', s'))"

subsection \<open>Return\<close>

record return_req =
  ret_user_id :: string
  ret_borrowingId :: string
  ret_notes :: "string option"

definition giveCopy :: "book \<Rightarrow> book" where
  "giveCopy b = b\<lparr>copiesAvailable := copiesAvailable b + 1\<rparr>"

definition markReturned :: "int \<Rightarrow> string option \<Rightarrow> borrowing \<Rightarrow> borrowing" where
  "markReturned now nts b =
     b\<lparr>br_status := RETURNED, actualReturnDate := Some now,
       br_notes := (if truthy nts then nts else br_notes b)\<rparr>"

definition returnedAudit :: "return_req \<Rightarrow> borrowing \<Rightarrow> audit_log" where
  "returnedAudit req br =
     \<lparr> a_userId = ret_user_id req, a_bookId = Some (bookId br), action = ''BOOK_RETURNED'' \<rparr>"

definition returnedNotification :: "int \<Rightarrow> book \<Rightarrow> borrowing \<Rightarrow> notification" where
  "returnedNotification now bk br =
     \<lparr> n_userId = userId br,
       n_type = (if expectedReturnDate br < now then REMINDER else INFO),
       n_title = ''Book Returned'',
       message = ''Thank you for returning '' @ [CHR 0x22] @ title bk @ [CHR 0x22]
         @ (if expectedReturnDate br < now then '' (was overdue)'' else []) @ ''.'',
       isRead = False,
       createdAt = now \<rparr>"

text \<open>
  \<open>returnBook\<close>. The borrowing is read joined with its book; the foreign key of the schema
  promises that book, and where the model's store has none the book update is the call
  that fails (P2025), after the borrowing was already rewritten.
\<close>

definition returnBook ::
  "int \<Rightarrow> return_req \<Rightarrow> store \<Rightarrow> store \<times> (app_error + borrowing)" where
  "returnBook now req s =
     (case findBorrowing s (ret_borrowingId req) of
        None \<Rightarrow> (s, Inl BORROWING_NOT_FOUND)
      | Some br \<Rightarrow>
         (if br_status br = RETURNED then (s, Inl ALREADY_RETURNED)
          else
           (case updateBorrowingRow s (ret_borrowingId req) (markReturned now (ret_notes req)) of
              None \<Rightarrow> (s, Inl NOT_FOUND)
            | Some s1 \<Rightarrow>
               (case (findBook s (bookId br), updateBookRow s1 (bookId br) giveCopy) of
                  (Some bk, Some s2) \<Rightarrow>
                    (createNotification (createAuditLog s2 (returnedAudit req br))
                       (returnedNotification now bk br),
                     Inr (markReturned now (ret_notes req) br))
                | _ \<Rightarrow> (s1, Inl NOT_FOUND)))))"

subsection \<open>Extend\<close>

record extend_req =
  ext_user_id :: string
  ext_borrowingId :: string
  body_additionalDays :: "jsnum option"

text \<open>The date the handler computes from the borrowing it read:
  \<open>setDate(getDate() + parseInt(additionalDays))\<close> on the expected return date. The sum
  is one of two whole numbers, and exact wherever the date it gives is a valid one.\<close>

definition extendedDate :: "env \<Rightarrow> jsnum \<Rightarrow> borrowing \<Rightarrow> int option" where
  "extendedDate e x br =
     (case parseIntNum e x of
        None \<Rightarrow> None
      | Some n \<Rightarrow>
          timeClip (setDate e (expectedReturnDate br) (getDate e (expectedReturnDate br) + n)))"

definition extendTo :: "int \<Rightarrow> borrowing \<Rightarrow> borrowing" where
  "extendTo t b = b\<lparr>expectedReturnDate := t\<rparr>"

definition extendedAudit :: "extend_req \<Rightarrow> borrowing \<Rightarrow> audit_log" where
  "extendedAudit req br =
     \<lparr> a_userId = ext_user_id req, a_bookId = Some (bookId br),
       action = ''BORROWING_EXTENDED'' \<rparr>"

text \<open>\<open>extendBorrowing\<close>. The update of the borrowing is the first write; it is refused,
  and nothing is written, when the new date is an Invalid Date or one the store does not
  take.\<close>

definition extendBorrowing ::
  "env \<Rightarrow> extend_req \<Rightarrow> store \<Rightarrow> store \<times> (app_error + borrowing)" where
  "extendBorrowing e req s =
     (case body_additionalDays req of
        None \<Rightarrow> (s, Inl VALIDATION_ERROR)
      | Some x \<Rightarrow>
         (if x = Finite 0 \<or> lessNum x (Finite 1) then (s, Inl VALIDATION_ERROR)
          else
           (case findBorrowing s (ext_borrowingId req) of
              None \<Rightarrow> (s, Inl BORROWING_NOT_FOUND)
            | Some br \<Rightarrow>
               (if br_status br \<noteq> BORROWED then (s, Inl INVALID_STATUS)
                else
                 (case extendedDate e x br of
                    None \<Rightarrow> (s, Inl STORE_REFUSED)
                  | Some t \<Rightarrow>
                     (if \<not> storesInstant e t then (s, Inl STORE_REFUSED)
                      else
                       (case updateBorrowingRow s (ext_borrowingId req) (extendTo t) of
                          None \<Rightarrow> (s, Inl NOT_FOUND)
                        | Some s1 \<Rightarrow>
                            (createAuditLog s1 (extendedAudit req br),
                             Inr (extendTo t br)))))))))"

section \<open>Book controller\<close>

text \<open>The body of \<open>PUT /api/books/:id\<close>. A field that is \<open>undefined\<close> is \<open>None\<close>; a
  column that is not text can also be sent as \<open>null\<close>, which is \<open>Some None\<close>. The counts
  and the year are numbers.\<close>

record update_req =
  upd_user_id :: string
  upd_id :: string
  upd_title :: "string option"
  upd_author :: "string option"
  upd_isbn :: "string option option"
  upd_categoryId :: "string option option"
  upd_shelfId :: "string option option"
  upd_copiesTotal :: "jsnum option option"
  upd_copiesAvailable :: "jsnum option option"
  upd_description :: "string option option"
  upd_publicationYear :: "jsnum option option"
  upd_status :: "book_status option"

definition findBookByIsbn :: "store \<Rightarrow> string \<Rightarrow> book option" where
  "findBookByIsbn s i = find (\<lambda>b. isbn b = Some i) (books s)"

definition isbnTaken :: "update_req \<Rightarrow> book \<Rightarrow> store \<Rightarrow> bool" where
  "isbnTaken req existing s =
     (case upd_isbn req of
        Some (Some i) \<Rightarrow> i \<noteq> [] \<and> Some i \<noteq> isbn existing \<and> findBookByIsbn s i \<noteq> None
      | _ \<Rightarrow> False)"

text \<open>\<open>copiesAvailable > copiesTotal\<close>, asked when neither is \<open>undefined\<close>; in a
  comparison \<open>null\<close> counts as zero.\<close>

definition toNumber :: "jsnum option \<Rightarrow> jsnum" where
  "toNumber x = (case x of None \<Rightarrow> Finite 0 | Some n \<Rightarrow> n)"

definition copiesRejected :: "update_req \<Rightarrow> bool" where
  "copiesRejected req =
     (case upd_copiesAvailable req of
        None \<Rightarrow> False
      | Some a \<Rightarrow>
         (case upd_copiesTotal req of
            None \<Rightarrow> False
          | Some t \<Rightarrow> lessNum (toNumber t) (toNumber a)))"

text \<open>
  What the schema asks of the row the update writes. The counts and the year are
  \<open>INTEGER\<close> columns: a number that is sent has to be whole and fit 32 bits, and only the
  year can be \<open>null\<close>. The ISBN has a unique index: an ISBN that is sent and not null
  must not be that of another book. The category and the shelf are foreign keys: one
  that is sent and not null has to be on record.
\<close>

definition wholeInt32 :: "jsnum \<Rightarrow> bool" where
  "wholeInt32 x =
     (case x of
        Finite q \<Rightarrow> q = of_int \<lfloor>q\<rfloor> \<and> - 2147483648 \<le> \<lfloor>q\<rfloor> \<and> \<lfloor>q\<rfloor> \<le> 2147483647
      | _ \<Rightarrow> False)"

definition countFits :: "jsnum option option \<Rightarrow> bool" where
  "countFits x = (case x of None \<Rightarrow> True | Some None \<Rightarrow> False | Some (Some n) \<Rightarrow> wholeInt32 n)"

definition numbersFit :: "update_req \<Rightarrow> bool" where
  "numbersFit req =
     (countFits (upd_copiesTotal req) \<and> countFits (upd_copiesAvailable req)
      \<and> (case upd_publicationYear req of Some (Some n) \<Rightarrow> wholeInt32 n | _ \<Rightarrow> True))"

definition isbnFree :: "update_req \<Rightarrow> store \<Rightarrow> bool" where
  "isbnFree req s =
     (case upd_isbn req of
        Some (Some i) \<Rightarrow> \<not> list_ex (\<lambda>b. b_id b \<noteq> upd_id req \<and> isbn b = Some i) (books s)
      | _ \<Rightarrow> True)"

definition refsOnRecord :: "update_req \<Rightarrow> store \<Rightarrow> bool" where
  "refsOnRecord req s =
     ((case upd_categoryId req of Some (Some c) \<Rightarrow> c \<in> set (categories s) | _ \<Rightarrow> True)
      \<and> (case upd_shelfId req of Some (Some h) \<Rightarrow> h \<in> set (shelves s) | _ \<Rightarrow> True))"

text \<open>The row after the update: a field that is sent replaces the stored one (the title
  and the author when they are not empty). Of a number that fits its column the whole
  part is the number itself; a row with a number that does not fit is never written.\<close>

definition orKeep :: "'a option \<Rightarrow> 'a \<Rightarrow> 'a" where
  "orKeep x old = (case x of None \<Rightarrow> old | Some v \<Rightarrow> v)"

definition sentCount :: "jsnum option option \<Rightarrow> int option" where
  "sentCount x = (case x of Some (Some (Finite q)) \<Rightarrow> Some \<lfloor>q\<rfloor> | _ \<Rightarrow> None)"

definition sentYear :: "jsnum option option \<Rightarrow> int option option" where
  "sentYear x =
     (case x of
        Some None \<Rightarrow> Some None
      | Some (Some (Finite q)) \<Rightarrow> Some (Some \<lfloor>q\<rfloor>)
      | _ \<Rightarrow> None)"

definition applyUpdate :: "update_req \<Rightarrow> book \<Rightarrow> book" where
  "applyUpdate req b =
     b\<lparr> title := (if truthy (upd_title req) then orKeep (upd_title req) (title b) else title b),
        author := (if truthy (upd_author req) then orKeep (upd_author req) (author b)
                   else author b),
        isbn := orKeep (upd_isbn req) (isbn b),
        categoryId := orKeep (upd_categoryId req) (categoryId b),
        shelfId := orKeep (upd_shelfId req) (shelfId b),
        copiesTotal := orKeep (sentCount (upd_copiesTotal req)) (copiesTotal b),
        copiesAvailable := orKeep (sentCount (upd_copiesAvailable req)) (copiesAvailable b),
        description := orKeep (upd_description req) (description b),
        publicationYear := orKeep (sentYear (upd_publicationYear req)) (publicationYear b),
        b_status := orKeep (upd_status req) (b_status b) \<rparr>"

definition updatedAudit :: "update_req \<Rightarrow> audit_log" where
  "updatedAudit req =
     \<lparr> a_userId = upd_user_id req, a_bookId = Some (upd_id req), action = ''BOOK_UPDATED'' \<rparr>"

text \<open>\<open>updateBook\<close>. The update of the book is the first write. The store refuses it,
  and nothing is written, when a number does not fit its column, then when the ISBN is
  another book's, then when a referenced row is missing.\<close>

definition updateBook :: "update_req \<Rightarrow> store \<Rightarrow> store \<times> (app_error + book)" where
  "updateBook req s =
     (case findBook s (upd_id req) of
        None \<Rightarrow> (s, Inl BOOK_NOT_FOUND)
      | Some existing \<Rightarrow>
         (if isbnTaken req existing s then (s, Inl ISBN_EXISTS)
          else if copiesRejected req then (s, Inl VALIDATION_ERROR)
          else if \<not> numbersFit req then (s, Inl STORE_REFUSED)
          else if \<not> isbnFree req s then (s, Inl DUPLICATE_ENTRY)
          else if \<not> refsOnRecord req s then (s, Inl STORE_REFUSED)
          else
           (case updateBookRow s (upd_id req) (applyUpdate req) of
              None \<Rightarrow> (s, Inl NOT_FOUND)
            | Some s1 \<Rightarrow> (createAuditLog s1 (updatedAudit req), Inr (applyUpdate req existing)))))"

text \<open>\<open>syncBookStatus\<close>: the books whose status is not set by hand, each compared with
  the status its copies call for, and rewritten where they differ.\<close>

definition correctStatus :: "book \<Rightarrow> book_status" where
  "correctStatus b = (if 0 < copiesAvailable b then AVAILABLE else BOOK_BORROWED)"

fun syncLoop :: "book list \<Rightarrow> store \<Rightarrow> nat \<Rightarrow> store \<times> (app_error + nat)" where
  "syncLoop [] s n = (s, Inr n)"
| "syncLoop (bk # bks) s n =
     (if b_status bk \<noteq> correctStatus bk
      then (case updateBookRow s (b_id bk) (\<lambda>b. b\<lparr>b_status := correctStatus bk\<rparr>) of
              None \<Rightarrow> (s, Inl NOT_FOUND)
            | Some s1 \<Rightarrow> syncLoop bks s1 (Suc n))
      else syncLoop bks s n)"

definition syncBookStatus :: "store \<Rightarrow> store \<times> (app_error + nat)" where
  "syncBookStatus s =
     syncLoop (filter (\<lambda>b. b_status b \<noteq> MAINTENANCE \<and> b_status b \<noteq> LOST) (books s)) s 0"

section \<open>Overdue checker service\<close>

text \<open>
  One run of \<open>checkOverdueBooks\<close> at the instant \<open>now\<close>. A day starts at a multiple of
  \<open>msPerDay\<close> (local midnight, in UTC), and the store stamps a new notification with the
  same instant. The store calls of a run can fail for reasons outside the code (the store
  is down, a row is locked): \<open>fails\<close> says which call is refused in this run, each call of
  the loop named by the borrowing it is made for.
\<close>

datatype store_call =
    FindOverdue
  | UpdateStatus string
  | FindNotification string
  | CreateNotification string

type_synonym overdue_row = "borrowing \<times> user option \<times> book option"

definition overdueRows :: "store \<Rightarrow> int \<Rightarrow> overdue_row list" where
  "overdueRows s now =
     map (\<lambda>b. (b, findUser s (userId b), findBook s (bookId b)))
       (filter (\<lambda>b. br_status b = BORROWED \<and> expectedReturnDate b < now) (borrowings s))"

definition today :: "int \<Rightarrow> int" where
  "today now = now - now mod msPerDay"

definition contains :: "string \<Rightarrow> string \<Rightarrow> bool" where
  "contains hay needle = sublist needle hay"

definition existingNotification ::
  "store \<Rightarrow> string \<Rightarrow> int \<Rightarrow> string \<Rightarrow> notification option" where
  "existingNotification s uid day ttl =
     find (\<lambda>n. n_userId n = uid \<and> n_type n = N_OVERDUE \<and> day \<le> createdAt n
               \<and> contains (message n) ttl) (notifications s)"

definition digit :: "nat \<Rightarrow> char" where
  "digit d = char_of (48 + d)"

fun showNat :: "nat \<Rightarrow> string" where
  "showNat n = (if n < 10 then [digit n] else showNat (n div 10) @ [digit (n mod 10)])"

definition showInt :: "int \<Rightarrow> string" where
  "showInt i = (if i < 0 then CHR 0x2D # showNat (nat (- i)) else showNat (nat i))"

definition daysOverdue :: "int \<Rightarrow> borrowing \<Rightarrow> int" where
  "daysOverdue now b = (now - expectedReturnDate b) div msPerDay"

definition overdueNotification :: "int \<Rightarrow> borrowing \<Rightarrow> string \<Rightarrow> notification" where
  "overdueNotification now b ttl =
     \<lparr> n_userId = userId b,
       n_type = N_OVERDUE,
       n_title = ''Book Overdue'',
       message = ''Your book '' @ [CHR 0x22] @ ttl @ [CHR 0x22] @ '' is overdue by ''
         @ showInt (daysOverdue now b)
         @ '' day(s). Please return it as soon as possible.'',
       isRead = False,
       createdAt = now \<rparr>"

text \<open>What one turn of the loop comes to: a notification was created, an earlier one of
  the day was found, or a call threw. A throw after the notification was created (the log
  line reads the joined user) is \<open>ThrewAfterNotifying\<close>.\<close>

datatype turn = Notified | Skipped | Threw | ThrewAfterNotifying

definition processOverdue ::
  "(store_call \<Rightarrow> bool) \<Rightarrow> int \<Rightarrow> overdue_row \<Rightarrow> store \<Rightarrow> store \<times> turn" where
  "processOverdue fails now row s =
     (case row of (b, u, bk) \<Rightarrow>
       (if fails (UpdateStatus (br_id b)) then (s, Threw)
        else
         (case updateBorrowingRow s (br_id b) (\<lambda>x. x\<lparr>br_status := OVERDUE\<rparr>) of
            None \<Rightarrow> (s, Threw)
          | Some s1 \<Rightarrow>
             (case bk of
                None \<Rightarrow> (s1, Threw)
              | Some k \<Rightarrow>
                 (if fails (FindNotification (br_id b)) then (s1, Threw)
                  else
                   (case existingNotification s1 (userId b) (today now) (title k) of
                      Some n \<Rightarrow> (s1, Skipped)
                    | None \<Rightarrow>
                       (if fails (CreateNotification (br_id b)) then (s1, Threw)
                        else
                         (case u of
                            None \<Rightarrow>
                              (createNotification s1 (overdueNotification now b (title k)),
                               ThrewAfterNotifying)
                          | Some usr \<Rightarrow>
                              (createNotification s1 (overdueNotification now b (title k)),
                               Notified)))))))))"

text \<open>The loop has no handler of its own: a throw leaves it. It answers the store, the
  rows it created a notification for, and whether it threw.\<close>

fun sweepLoop ::
  "(store_call \<Rightarrow> bool) \<Rightarrow> int \<Rightarrow> overdue_row list \<Rightarrow> store
     \<Rightarrow> store \<times> overdue_row list \<times> bool" where
  "sweepLoop fails now [] s = (s, [], False)"
| "sweepLoop fails now (row # rows) s =
     (case processOverdue fails now row s of
        (s1, Threw) \<Rightarrow> (s1, [], True)
      | (s1, ThrewAfterNotifying) \<Rightarrow> (s1, [row], True)
      | (s1, Skipped) \<Rightarrow> sweepLoop fails now rows s1
      | (s1, Notified) \<Rightarrow>
          (case sweepLoop fails now rows s1 of (s2, sent, threw) \<Rightarrow> (s2, row # sent, threw)))"

text \<open>The run ends in one of its two log lines: the count of the overdue rows found, or
  the error the outer handler caught. Nothing is thrown to the caller.\<close>

datatype tick_log = Completed nat | Caught

definition checkOverdueBooks ::
  "(store_call \<Rightarrow> bool) \<Rightarrow> int \<Rightarrow> store \<Rightarrow> store \<times> tick_log" where
  "checkOverdueBooks fails now s =
     (if fails FindOverdue then (s, Caught)
      else
       (case sweepLoop fails now (overdueRows s now) s of
          (s1, sent, threw) \<Rightarrow>
            (s1, if threw then Caught else Completed (length (overdueRows s now)))))"

text \<open>\<open>startOverdueChecker\<close> runs the check once and then on every firing of the timer:
  a list of runs, each with its instant and the calls that fail in it.\<close>

fun runTicks :: "((store_call \<Rightarrow> bool) \<times> int) list \<Rightarrow> store \<Rightarrow> store \<times> tick_log list" where
  "runTicks [] s = (s, [])"
| "runTicks (t # ts) s =
     (case checkOverdueBooks (fst t) (snd t) s of
        (s1, l) \<Rightarrow> (case runTicks ts s1 of (s2, ls) \<Rightarrow> (s2, l # ls)))"

section \<open>The preconditions of a borrow, as the specification lists them\<close>















section \<open>The store after a borrow and after a return\<close>

text \<open>The four writes of a borrow that passed its checks, and of a return of an open
  borrowing whose book is on record, gathered into one update of the store.\<close>

definition borrowedStore ::
  "env \<Rightarrow> int \<Rightarrow> string \<Rightarrow> borrow_req \<Rightarrow> book \<Rightarrow> store \<Rightarrow> store" where
  "borrowedStore e now nid req bk s =
     s\<lparr> borrowings := borrowings s @ [newBorrowing e now nid req],
        books := map (\<lambda>b. if b_id b = bookIdOf req then takeCopy b else b) (books s),
        auditLogs := auditLogs s @ [borrowedAudit req],
        notifications := notifications s
          @ [borrowedNotification e now bk (newBorrowing e now nid req)] \<rparr>"


text \<open>The inventory rule of the specification, for every book on record.\<close>

definition inventoryOk :: "store \<Rightarrow> bool" where
  "inventoryOk s =
     list_all (\<lambda>b. 0 \<le> copiesAvailable b \<and> copiesAvailable b \<le> copiesTotal b) (books s)"

section \<open>What a run of the overdue check leaves behind\<close>

text \<open>
  Notions the statements about the overdue check are written in: the store with one
  borrowing, or a set of them, flagged OVERDUE; the title a row was joined with, the
  notification written for a row, and whether the user of a row already has an overdue
  notification of the day that mentions its title; the store in which every borrowing
  has its book and its user on record, as the foreign keys of the schema demand; and the
  rows the loop can serve without a failed read.
\<close>

definition flagRow :: "string \<Rightarrow> store \<Rightarrow> store" where
  "flagRow k s =
     s\<lparr>borrowings := map (\<lambda>x. if br_id x = k then x\<lparr>br_status := OVERDUE\<rparr> else x)
                          (borrowings s)\<rparr>"

definition flagged :: "string set \<Rightarrow> borrowing list \<Rightarrow> borrowing list" where
  "flagged F bs = map (\<lambda>x. if br_id x \<in> F then x\<lparr>br_status := OVERDUE\<rparr> else x) bs"

definition rowTitle :: "overdue_row \<Rightarrow> string" where
  "rowTitle r = (case snd (snd r) of None \<Rightarrow> [] | Some k \<Rightarrow> title k)"

definition rowNote :: "int \<Rightarrow> overdue_row \<Rightarrow> notification" where
  "rowNote now r = overdueNotification now (fst r) (rowTitle r)"

definition rowKey :: "overdue_row \<Rightarrow> string \<times> string" where
  "rowKey r = (userId (fst r), rowTitle r)"

definition notifiedToday :: "store \<Rightarrow> int \<Rightarrow> overdue_row \<Rightarrow> bool" where
  "notifiedToday s now r =
     (existingNotification s (userId (fst r)) (today now) (rowTitle r) \<noteq> None)"

definition joined :: "store \<Rightarrow> bool" where
  "joined s = (list_all (\<lambda>k. findBook s k \<noteq> None) (map bookId (borrowings s))
             \<and> list_all (\<lambda>u. findUser s u \<noteq> None) (map userId (borrowings s)))"

definition rowsReady :: "store \<Rightarrow> overdue_row list \<Rightarrow> bool" where
  "rowsReady s rows = list_all (\<lambda>r. fst (snd r) \<noteq> None \<and> snd (snd r) \<noteq> None
      \<and> br_id (fst r) \<in> set (map br_id (borrowings s))) rows"

text \<open>A borrowing the check has to flag; a run in which the store serves every call,
  and a run in which it refuses exactly one.\<close>

definition isOverdue :: "int \<Rightarrow> borrowing \<Rightarrow> bool" where
  "isOverdue now b = (br_status b = BORROWED \<and> expectedReturnDate b < now)"

definition noFailure :: "store_call \<Rightarrow> bool" where
  "noFailure = (\<lambda>c. False)"

definition failAt :: "store_call \<Rightarrow> store_call \<Rightarrow> bool" where
  "failAt c = (\<lambda>x. x = c)"

section \<open>A small library\<close>

text \<open>The stores and requests the worked examples below run on.\<close>

definition mkUser :: "string \<Rightarrow> user_role \<Rightarrow> user_status \<Rightarrow> user" where
  "mkUser k r st = \<lparr> u_id = k, email = k @ ''@library.local'', fullName = k, role = r,
     u_status = st \<rparr>"

definition mkBook :: "string \<Rightarrow> string \<Rightarrow> int \<Rightarrow> int \<Rightarrow> book" where
  "mkBook k ttl tot av = \<lparr> b_id = k, title = ttl, author = ''Herbert'', isbn = None,
     categoryId = None, shelfId = None, copiesTotal = tot, copiesAvailable = av,
     b_status = AVAILABLE, description = None, publicationYear = None \<rparr>"

definition mkBorrowing ::
  "string \<Rightarrow> string \<Rightarrow> string \<Rightarrow> int \<Rightarrow> borrowing_status \<Rightarrow> borrowing" where
  "mkBorrowing k uid bid due st = \<lparr> br_id = k, userId = uid, bookId = bid, borrowDate = 0,
     expectedReturnDate = due, actualReturnDate = None, br_status = st, br_notes = None \<rparr>"

text \<open>A host on UTC with the limits at their defaults, whose store takes the instants of
  the years 1970 to 9999. The first digit of a number printed in exponent notation is
  taken from its whole part. The numbers of the requests below are whole numbers and
  halves, whose sums are doubles: no sum is rounded.\<close>

fun leadDigit :: "nat \<Rightarrow> nat" where
  "leadDigit n = (if n < 10 then n else leadDigit (n div 10))"

definition env0 :: env where
  "env0 = \<lparr> MAX_BOOKS_PER_USER = None, MAX_BORROW_DAYS = None,
     toLocaleDateString = showInt, tzaUtc = (\<lambda>t. 0), tzaLocal = (\<lambda>t. 0),
     exponentLead = (\<lambda>x. (if x < 0 then - 1 else 1) * int (leadDigit (nat \<lfloor>\<bar>x\<bar>\<rfloor>))),
     toDouble = (\<lambda>x. x),
     storesInstant = (\<lambda>t. 0 \<le> t \<and> t < 253402300800000) \<rparr>"

definition people :: "user list" where
  "people = [mkUser ''admin'' ADMIN ACTIVE, mkUser ''staff'' STAFF ACTIVE,
     mkUser ''ann'' USER ACTIVE, mkUser ''bob'' USER ACTIVE]"

definition store0 :: store where
  "store0 = \<lparr> users = people, books = [mkBook ''b1'' ''Dune'' 1 1], borrowings = [],
     notifications = [], auditLogs = [], categories = [], shelves = [] \<rparr>"

definition borrowFor :: "string \<Rightarrow> user_role \<Rightarrow> string option \<Rightarrow> string \<Rightarrow> borrow_req" where
  "borrowFor actor r uid bid = \<lparr> req_user_id = actor, req_user_role = r, body_userId = uid,
     body_bookId = Some bid, body_borrowDays = None, body_notes = None \<rparr>"

text \<open>A reader at the default limit of five: four books out and one flagged overdue.\<close>

definition storeLimit :: store where
  "storeLimit = \<lparr> users = people,
     books = [mkBook ''b1'' ''Dune'' 1 1, mkBook ''k1'' ''Emma'' 1 0, mkBook ''k2'' ''Ulysses'' 1 0,
              mkBook ''k3'' ''Walden'' 1 0, mkBook ''k4'' ''Hamlet'' 1 0, mkBook ''k5'' ''Faust'' 1 0],
     borrowings = [mkBorrowing ''r1'' ''ann'' ''k1'' 5000 BORROWED,
                   mkBorrowing ''r2'' ''ann'' ''k2'' 5000 BORROWED,
                   mkBorrowing ''r3'' ''ann'' ''k3'' 5000 BORROWED,
                   mkBorrowing ''r4'' ''ann'' ''k4'' 5000 BORROWED,
                   mkBorrowing ''r5'' ''ann'' ''k5'' 500 OVERDUE],
     notifications = [], auditLogs = [], categories = [], shelves = [] \<rparr>"

text \<open>The same reader with all five books still out.\<close>

definition storeFull :: store where
  "storeFull = storeLimit\<lparr> borrowings :=
     [mkBorrowing ''r1'' ''ann'' ''k1'' 5000 BORROWED,
      mkBorrowing ''r2'' ''ann'' ''k2'' 5000 BORROWED,
      mkBorrowing ''r3'' ''ann'' ''k3'' 5000 BORROWED,
      mkBorrowing ''r4'' ''ann'' ''k4'' 5000 BORROWED,
      mkBorrowing ''r5'' ''ann'' ''k5'' 5000 BORROWED] \<rparr>"

text \<open>A desk with loans in every state: two overdue and not yet flagged (\<open>r1\<close>, \<open>r5\<close>),
  one running (\<open>r2\<close>), one flagged overdue (\<open>r3\<close>), one returned (\<open>r4\<close>).\<close>

definition storeDesk :: store where
  "storeDesk = \<lparr> users = people,
     books = [mkBook ''b1'' ''Dune'' 2 0, mkBook ''b2'' ''Dune Messiah'' 2 0,
              mkBook ''b3'' ''Emma'' 1 1],
     borrowings = [mkBorrowing ''r1'' ''ann'' ''b1'' 500 BORROWED,
                   mkBorrowing ''r2'' ''bob'' ''b1'' 864000000 BORROWED,
                   mkBorrowing ''r3'' ''ann'' ''b2'' 500 OVERDUE,
                   mkBorrowing ''r4'' ''bob'' ''b3'' 500 RETURNED,
                   mkBorrowing ''r5'' ''bob'' ''b2'' 600 BORROWED],
     notifications = [], auditLogs = [], categories = [], shelves = [] \<rparr>"

definition returnOf :: "string \<Rightarrow> return_req" where
  "returnOf k = \<lparr> ret_user_id = ''staff'', ret_borrowingId = k, ret_notes = None \<rparr>"

definition extendOf :: "string \<Rightarrow> rat option \<Rightarrow> extend_req" where
  "extendOf k d = \<lparr> ext_user_id = ''staff'', ext_borrowingId = k,
     body_additionalDays = map_option Finite d \<rparr>"

text \<open>An update that sends nothing but the two copy counts.\<close>

definition copiesUpdate :: "string \<Rightarrow> rat option \<Rightarrow> rat option \<Rightarrow> update_req" where
  "copiesUpdate k tot av = \<lparr> upd_user_id = ''staff'', upd_id = k, upd_title = None,
     upd_author = None, upd_isbn = None, upd_categoryId = None, upd_shelfId = None,
     upd_copiesTotal = map_option (\<lambda>q. Some (Finite q)) tot,
     upd_copiesAvailable = map_option (\<lambda>q. Some (Finite q)) av, upd_description = None,
     upd_publicationYear = None, upd_status = None \<rparr>"

text \<open>Two borrows of the one copy of \<open>b1\<close>, for two different readers.\<close>

definition callAnn :: borrow_call where
  "callAnn = (1000, ''n1'', borrowFor ''admin'' ADMIN (Some ''ann'') ''b1'')"

definition callBob :: borrow_call where
  "callBob = (1000, ''n2'', borrowFor ''admin'' ADMIN (Some ''bob'') ''b1'')"


section \<open>Evaluation\<close>

lemma env0_fields:
  "MAX_BOOKS_PER_USER env0 = None" "MAX_BORROW_DAYS env0 = None"
  "toLocaleDateString env0 = showInt" "tzaUtc env0 = (\<lambda>t. 0)" "tzaLocal env0 = (\<lambda>t. 0)"
  by (simp_all add: env0_def)

lemmas fixture_defs = mkUser_def mkBook_def mkBorrowing_def env0_fields people_def store0_def
  borrowFor_def storeLimit_def storeFull_def
  storeDesk_def returnOf_def extendOf_def copiesUpdate_def callAnn_def callBob_def

lemmas store_defs = findUser_def findBook_def findBorrowing_def updateBookRow_def
  updateBorrowingRow_def createBorrowing_def createNotification_def createAuditLog_def
  truthy_def js_or_def

section \<open>Dates moved by whole days\<close>

lemma js_trunc_of_int [simp]: "js_trunc (of_int a) = a"
  by (simp add: js_trunc_def)

lemma js_trunc_add_of_int [simp]: "js_trunc (of_int a + of_int b) = a + b"
  using js_trunc_of_int [of "a + b"] by simp

lemma js_trunc_floor: "0 \<le> x \<Longrightarrow> js_trunc x = \<lfloor>x\<rfloor>"
  by (simp add: js_trunc_def)

lemma floor_evals:
  "\<lfloor>(3::rat) / 2\<rfloor> = 1" "\<lfloor>(1::rat) / 2\<rfloor> = 0" "\<lfloor>- (1::rat)\<rfloor> = - 1"
  by linarith+

lemma setDate_getDate:
  "setDate e t (getDate e t + n)
     = t + tzaUtc e t + n * msPerDay - tzaLocal e (t + tzaUtc e t + n * msPerDay)"
  by (simp add: setDate_def getDate_def Let_def)

lemma setDate_fixed_zone:
  assumes "\<And>t. tzaUtc e t = c" and "\<And>t. tzaLocal e t = c"
  shows "setDate e t (getDate e t + n) = t + n * msPerDay"
  by (simp add: setDate_getDate assms)

lemma parseIntNum_whole_part:
  assumes "1 \<le> q" and "q < 10 ^ 21"
  shows "parseIntNum e (Finite q) = Some \<lfloor>q\<rfloor>"
proof -
  from assms(1) have "\<bar>q\<bar> = q" and "\<not> \<bar>q\<bar> < 1 / 10 ^ 6" by simp_all
  with assms show ?thesis by (simp add: parseIntNum_def js_trunc_def)
qed

lemma dueDate_whole:
  assumes "daysOf e req = Finite (of_int d)"
    and "toDouble e (of_int (getDate e now + d)) = of_int (getDate e now + d)"
  shows "dueDate e now req = timeClip (setDate e now (getDate e now + d))"
  using assms by (simp add: dueDate_def)

lemma dueDate_env0:
  "body_borrowDays req = None \<Longrightarrow> dueDate env0 now req = timeClip (now + 14 * msPerDay)"
proof -
  assume "body_borrowDays req = None"
  then have "daysOf env0 req = Finite (of_int 14)" by (simp add: daysOf_def env0_def js_or_def)
  moreover have "toDouble env0 (of_int (getDate env0 now + 14)) = of_int (getDate env0 now + 14)"
    by (simp add: env0_def)
  ultimately have "dueDate env0 now req = timeClip (setDate env0 now (getDate env0 now + 14))"
    by (rule dueDate_whole)
  then show ?thesis by (simp add: setDate_getDate) (simp add: env0_def)
qed

lemma timeClip_eval:
  "timeClip t = (if - 8640000000000000 \<le> t \<and> t \<le> 8640000000000000 then Some t else None)"
  by (simp add: timeClip_def validTime_def maxTime_def)

lemma storable_env0:
  "storable env0 None = False"
  "storable env0 (Some t) = (0 \<le> t \<and> t < 253402300800000)"
  by (simp_all add: storable_def env0_def)

section \<open>Evaluation, continued\<close>

lemmas borrow_defs = borrowBook_def forOtherDenied_def borrowerOf_def bookIdOf_def
  existingBorrowing_def activeBorrowings_def newBorrowing_def takeCopy_def
  dueDate_env0 timeClip_eval storable_env0 msPerDay_def

text \<open>An ADMIN borrowing the free copy of \<open>b1\<close> for \<open>ann\<close> is served.\<close>

lemma admin_for_other_borrows:
  "snd (borrowBook env0 1000 ''n1'' (borrowFor ''admin'' ADMIN (Some ''ann'') ''b1'') store0)
     = Inr (newBorrowing env0 1000 ''n1'' (borrowFor ''admin'' ADMIN (Some ''ann'') ''b1''))"
  by (simp add: fixture_defs store_defs borrow_defs Let_def)

section \<open>Who may borrow for another user\<close>

text \<open>
  C3, as the specification words it: a caller who names another user as the borrower must
  be STAFF or ADMIN. The handler lets only ADMIN through. Here a STAFF caller names the
  active user \<open>ann\<close> for a book with a free copy, and is answered FORBIDDEN; the store is
  as it was.
\<close>

theorem staff_for_other_forbidden:
  "borrowBook env0 1000 ''n1'' (borrowFor ''staff'' STAFF (Some ''ann'') ''b1'') store0
     = (store0, Inl FORBIDDEN)"
  by (simp add: fixture_defs store_defs borrow_defs)

text \<open>
  C3, as the code has it: when the body names a borrower other than the caller, a caller
  whose role is not ADMIN (STAFF as much as USER) is answered FORBIDDEN and nothing is
  written; an ADMIN caller is never answered FORBIDDEN; so a borrowing made for another
  user was made by an ADMIN.
\<close>

theorem borrow_for_other_admin_only:
  assumes "truthy (body_userId req)" and "body_userId req \<noteq> Some (req_user_id req)"
  shows "(req_user_role req \<noteq> ADMIN \<longrightarrow> borrowBook e now nid req s = (s, Inl FORBIDDEN))
       \<and> (req_user_role req = ADMIN \<longrightarrow> snd (borrowBook e now nid req s) \<noteq> Inl FORBIDDEN)
       \<and> (\<forall>br. snd (borrowBook e now nid req s) = Inr br \<longrightarrow> req_user_role req = ADMIN)"
proof (intro conjI allI impI)
  assume "req_user_role req \<noteq> ADMIN"
  with assms have "forOtherDenied req" by (simp add: forOtherDenied_def)
  then show "borrowBook e now nid req s = (s, Inl FORBIDDEN)" by (simp add: borrowBook_def)
next
  assume "req_user_role req = ADMIN"
  then have "\<not> forOtherDenied req" by (simp add: forOtherDenied_def)
  then show "snd (borrowBook e now nid req s) \<noteq> Inl FORBIDDEN"
    by (auto simp: borrowBook_def Let_def split: option.splits)
next
  fix br assume ok: "snd (borrowBook e now nid req s) = Inr br"
  show "req_user_role req = ADMIN"
  proof (rule ccontr)
    assume "req_user_role req \<noteq> ADMIN"
    with assms have "forOtherDenied req" by (simp add: forOtherDenied_def)
    then have "snd (borrowBook e now nid req s) = Inl FORBIDDEN" by (simp add: borrowBook_def)
    with ok show False by simp
  qed
qed

theorem borrow_for_other_admin_only_witness:
  "truthy (body_userId (borrowFor ''staff'' STAFF (Some ''ann'') ''b1''))
   \<and> body_userId (borrowFor ''staff'' STAFF (Some ''ann'') ''b1'') \<noteq> Some ''staff''
   \<and> req_user_role (borrowFor ''staff'' STAFF (Some ''ann'') ''b1'') \<noteq> ADMIN
   \<and> borrowBook env0 1000 ''n1'' (borrowFor ''staff'' STAFF (Some ''ann'') ''b1'') store0
       = (store0, Inl FORBIDDEN)"
proof -
  let ?req = "borrowFor ''staff'' STAFF (Some ''ann'') ''b1''"
  have h1: "truthy (body_userId ?req)" by (simp add: borrowFor_def truthy_def)
  have h2: "body_userId ?req \<noteq> Some (req_user_id ?req)" by (simp add: borrowFor_def)
  have h3: "req_user_role ?req \<noteq> ADMIN" by (simp add: borrowFor_def)
  from borrow_for_other_admin_only [OF h1 h2, of env0 1000 "''n1''" store0] h3
  have "borrowBook env0 1000 ''n1'' ?req store0 = (store0, Inl FORBIDDEN)" by blast
  with h1 h2 h3 show ?thesis by (simp add: borrowFor_def)
qed

section \<open>The borrowing limit\<close>

text \<open>
  C4: the borrowings counted against the limit are the user's active ones, BORROWED or
  OVERDUE, and a user whose active borrowings have reached the limit is refused. The
  handler, whose limit is ``max 5 books per user'', counts the rows whose status is
  BORROWED, and so loses a loan from the count when the overdue check flags it. Here
  \<open>ann\<close> has four borrowings BORROWED and one OVERDUE, five books out with the limit at its
  default of five; the borrow for her is carried out, and she is left with six books
  that are not returned.
\<close>

theorem overdue_not_counted_against_limit:
  "snd (borrowBook env0 1000 ''n1'' (borrowFor ''admin'' ADMIN (Some ''ann'') ''b1'') storeLimit)
     = Inr (newBorrowing env0 1000 ''n1'' (borrowFor ''admin'' ADMIN (Some ''ann'') ''b1''))
 \<and> length (filter (\<lambda>b. userId b = ''ann'' \<and> br_status b \<noteq> RETURNED)
      (borrowings (fst (borrowBook env0 1000 ''n1''
         (borrowFor ''admin'' ADMIN (Some ''ann'') ''b1'') storeLimit)))) = 6"
  by (simp add: fixture_defs store_defs borrow_defs Let_def)

text \<open>What the handler counts: once the earlier checks have passed, the call is answered
  BORROWING_LIMIT_REACHED exactly when the borrower's rows with status BORROWED have
  reached the limit.\<close>

lemma limit_counts_status_borrowed:
  assumes "\<not> forOtherDenied req" and "truthy (body_bookId req)"
    and "findBook s (bookIdOf req) = Some bk" and "0 < copiesAvailable bk"
    and "findUser s (borrowerOf req) = Some u" and "u_status u = ACTIVE"
    and "existingBorrowing s (borrowerOf req) (bookIdOf req) = None"
  shows "(snd (borrowBook e now nid req s) = Inl BORROWING_LIMIT_REACHED)
       = (js_or (MAX_BOOKS_PER_USER e) 5
            \<le> int (length (filter (\<lambda>b. userId b = borrowerOf req \<and> br_status b = BORROWED)
                               (borrowings s))))"
  using assms
  by (auto simp: borrowBook_def activeBorrowings_def Let_def split: option.splits)

section \<open>The order of the preconditions\<close>









lemma findBook_createBorrowing [simp]: "findBook (createBorrowing s b) k = findBook s k"
  by (simp add: findBook_def createBorrowing_def)





lemma borrowBook_error_unchanged:
  assumes "snd (borrowBook e now nid req s) = Inl err"
  shows "fst (borrowBook e now nid req s) = s"
proof (cases "findBook s (bookIdOf req)")
  case None
  then show ?thesis by (simp add: borrowBook_def)
next
  case bk: (Some bk)
  show ?thesis
  proof (cases "findUser s (borrowerOf req)")
    case None
    with bk show ?thesis by (simp add: borrowBook_def)
  next
    case (Some u)
    with bk assms show ?thesis
      by (auto simp: borrowBook_def updateBookRow_def Let_def split: if_splits)
  qed
qed




section \<open>Rows found again after an update\<close>

lemma find_map_same_key:
  assumes "\<And>x. key (f x) = key x"
  shows "find (\<lambda>x. key x = k) (map (\<lambda>x. if key x = k' then f x else x) xs)
       = map_option (\<lambda>x. if key x = k' then f x else x) (find (\<lambda>x. key x = k) xs)"
  by (induction xs) (auto simp: assms)

lemma find_Some_key: "find (\<lambda>x. key x = k) xs = Some y \<Longrightarrow> key y = k"
  by (induction xs) (auto split: if_splits)


lemma findBorrowing_id: "findBorrowing s k = Some b \<Longrightarrow> br_id b = k"
  unfolding findBorrowing_def by (rule find_Some_key)

lemma findBook_id: "findBook s k = Some b \<Longrightarrow> b_id b = k"
  unfolding findBook_def by (rule find_Some_key)

section \<open>Return\<close>






lemma updateBookRow_after_create:
  "findBook s k = Some bk \<Longrightarrow>
   updateBookRow (createBorrowing s b) k f
     = Some (s\<lparr>borrowings := borrowings s @ [b],
              books := map (\<lambda>x. if b_id x = k then f x else x) (books s)\<rparr>)"
  by (simp add: updateBookRow_def createBorrowing_def findBook_def)

lemma borrowBook_Inr:
  assumes "borrowBook e now nid req s = (s1, Inr b)"
  shows "\<exists>bk. findBook s (bookIdOf req) = Some bk \<and> 0 < copiesAvailable bk
          \<and> b = newBorrowing e now nid req \<and> s1 = borrowedStore e now nid req bk s"
proof (cases "findBook s (bookIdOf req)")
  case None
  with assms show ?thesis by (auto simp: borrowBook_def split: if_splits)
next
  case bk: (Some bk)
  show ?thesis
  proof (cases "findUser s (borrowerOf req)")
    case None
    with bk assms show ?thesis by (auto simp: borrowBook_def split: if_splits)
  next
    case (Some u)
    with bk assms show ?thesis
      by (auto simp: borrowBook_def updateBookRow_after_create Let_def borrowedStore_def
          createAuditLog_def createNotification_def split: if_splits)
  qed
qed




section \<open>Extend\<close>

lemma extendedDate_whole_part:
  assumes "1 \<le> q" and "q < 10 ^ 21"
  shows "extendedDate e (Finite q) br
       = timeClip (setDate e (expectedReturnDate br)
                    (getDate e (expectedReturnDate br) + \<lfloor>q\<rfloor>))"
  by (simp add: extendedDate_def parseIntNum_whole_part [OF assms])

lemma extendedDate_env0:
  assumes "1 \<le> q" and "q < 10 ^ 21"
  shows "extendedDate env0 (Finite q) br = timeClip (expectedReturnDate br + \<lfloor>q\<rfloor> * msPerDay)"
proof -
  have "setDate env0 (expectedReturnDate br) (getDate env0 (expectedReturnDate br) + \<lfloor>q\<rfloor>)
      = expectedReturnDate br + \<lfloor>q\<rfloor> * msPerDay"
    by (rule setDate_fixed_zone [where c = 0]) (simp_all add: env0_def)
  then show ?thesis by (simp add: extendedDate_whole_part [OF assms])
qed

lemma at_least_one_not_zero: "\<not> lessNum x (Finite 1) \<Longrightarrow> x \<noteq> Finite 0"
  by auto

lemma extendBorrowing_stored:
  assumes "body_additionalDays req = Some x" and "\<not> lessNum x (Finite 1)"
    and "findBorrowing s (ext_borrowingId req) = Some br" and "br_status br = BORROWED"
    and "extendedDate e x br = Some t" and "storesInstant e t"
  shows "\<exists>s'. extendBorrowing e req s = (s', Inr (br\<lparr>expectedReturnDate := t\<rparr>))
            \<and> findBorrowing s' (ext_borrowingId req) = Some (br\<lparr>expectedReturnDate := t\<rparr>)"
proof -
  let ?s1 = "s\<lparr>borrowings := map (\<lambda>b. if br_id b = ext_borrowingId req
                                       then extendTo t b else b) (borrowings s)\<rparr>"
  let ?s' = "createAuditLog ?s1 (extendedAudit req br)"
  have id: "br_id br = ext_borrowingId req" using assms(3) by (rule findBorrowing_id)
  have run: "extendBorrowing e req s = (?s', Inr (extendTo t br))"
    using assms at_least_one_not_zero [OF assms(2)]
    by (simp add: extendBorrowing_def updateBorrowingRow_def)
  have "findBorrowing ?s1 (ext_borrowingId req) = Some (extendTo t br)"
    using find_map_same_key [of br_id "extendTo t" "ext_borrowingId req"
        "ext_borrowingId req" "borrowings s"] assms(3) id
    by (simp add: findBorrowing_def extendTo_def)
  then have "findBorrowing ?s' (ext_borrowingId req) = Some (extendTo t br)"
    by (simp add: findBorrowing_def createAuditLog_def)
  with run show ?thesis by (auto simp: extendTo_def)
qed

text \<open>
  C9, as the specification words it: an extension by \<open>additionalDays\<close> of at least one
  day of a borrowing that is BORROWED moves the expected return date by that many days.
  What the handler adds is \<open>parseInt(additionalDays)\<close> days, and the date it reaches has
  to be one the store can hold. Here a day and a half are asked for the borrowing \<open>r2\<close>,
  due at 864000000, and the call succeeds with the date moved by one day, to 950400000;
  and a hundred million days are asked for it, which is past the last date there is, and
  the call is refused with the store as it was.
\<close>

theorem extend_by_fraction_or_past_last_date:
  "snd (extendBorrowing env0 (extendOf ''r2'' (Some (3 / 2))) storeDesk)
     = Inr (mkBorrowing ''r2'' ''bob'' ''b1'' 950400000 BORROWED)
 \<and> extendBorrowing env0 (extendOf ''r2'' (Some 100000000)) storeDesk
     = (storeDesk, Inl STORE_REFUSED)"
proof -
  let ?r2 = "mkBorrowing ''r2'' ''bob'' ''b1'' 864000000 BORROWED"
  have f: "findBorrowing storeDesk ''r2'' = Some ?r2"
    by (simp add: fixture_defs findBorrowing_def)
  have d1: "extendedDate env0 (Finite (3 / 2)) ?r2 = Some 950400000"
    by (simp add: extendedDate_env0 timeClip_eval mkBorrowing_def msPerDay_def floor_evals)
  have d2: "extendedDate env0 (Finite 100000000) ?r2 = None"
    by (simp add: extendedDate_env0 timeClip_eval mkBorrowing_def msPerDay_def)
  have "snd (extendBorrowing env0 (extendOf ''r2'' (Some (3 / 2))) storeDesk)
      = Inr (mkBorrowing ''r2'' ''bob'' ''b1'' 950400000 BORROWED)"
    using f d1
    by (simp add: extendBorrowing_def extendOf_def extendTo_def env0_def
        updateBorrowingRow_def)
      (simp add: mkBorrowing_def)
  moreover have "extendBorrowing env0 (extendOf ''r2'' (Some 100000000)) storeDesk
      = (storeDesk, Inl STORE_REFUSED)"
    using f d2
    by (simp add: extendBorrowing_def extendOf_def) (simp add: mkBorrowing_def)
  ultimately show ?thesis by simp
qed

text \<open>
  C9, as the code has it: an extension by \<open>x\<close> days, \<open>x\<close> a number of at least one, of a
  borrowing on record is answered INVALID_STATUS when the borrowing is not BORROWED
  (OVERDUE and RETURNED alike) and writes nothing. When it is BORROWED, the date asked
  for is the one \<open>setDate\<close> makes of the old expected return date and \<open>parseInt\<close> of \<open>x\<close>:
  if it is a valid date that the store takes, the call succeeds, the stored expected
  return date is that date and the status is still BORROWED; if not, the call is refused
  and nothing is written. For \<open>x\<close> below \<open>10^21\<close> the days added are the whole part of
  \<open>x\<close>, counted on the local calendar, and where the local time keeps one offset from UTC
  the date asked for is the old one plus that many days; for an infinite \<open>x\<close> there is no
  date.
\<close>

theorem extend_borrowing_effects:
  assumes "body_additionalDays req = Some x" and "\<not> lessNum x (Finite 1)"
    and "findBorrowing s (ext_borrowingId req) = Some br"
  shows "(br_status br \<noteq> BORROWED \<longrightarrow> extendBorrowing e req s = (s, Inl INVALID_STATUS))
       \<and> (\<forall>t. br_status br = BORROWED \<and> extendedDate e x br = Some t \<and> storesInstant e t \<longrightarrow>
            (\<exists>s'. extendBorrowing e req s = (s', Inr (br\<lparr>expectedReturnDate := t\<rparr>))
              \<and> findBorrowing s' (ext_borrowingId req) = Some (br\<lparr>expectedReturnDate := t\<rparr>)
              \<and> br_status (br\<lparr>expectedReturnDate := t\<rparr>) = BORROWED))
       \<and> (br_status br = BORROWED \<and> \<not> storable e (extendedDate e x br) \<longrightarrow>
            extendBorrowing e req s = (s, Inl STORE_REFUSED))
       \<and> (\<forall>q. x = Finite q \<and> q < 10 ^ 21 \<longrightarrow>
            extendedDate e x br
              = timeClip (setDate e (expectedReturnDate br)
                           (getDate e (expectedReturnDate br) + \<lfloor>q\<rfloor>)))
       \<and> (\<forall>q c. x = Finite q \<and> q < 10 ^ 21 \<and> (\<forall>t. tzaUtc e t = c \<and> tzaLocal e t = c) \<longrightarrow>
            extendedDate e x br = timeClip (expectedReturnDate br + \<lfloor>q\<rfloor> * msPerDay))
       \<and> (x = PlusInfinity \<longrightarrow> extendedDate e x br = None)"
proof (intro conjI impI allI)
  assume "br_status br \<noteq> BORROWED"
  with assms at_least_one_not_zero [OF assms(2)]
  show "extendBorrowing e req s = (s, Inl INVALID_STATUS)"
    by (simp add: extendBorrowing_def)
next
  fix t
  assume h: "br_status br = BORROWED \<and> extendedDate e x br = Some t \<and> storesInstant e t"
  then have "\<exists>s'. extendBorrowing e req s = (s', Inr (br\<lparr>expectedReturnDate := t\<rparr>))
      \<and> findBorrowing s' (ext_borrowingId req) = Some (br\<lparr>expectedReturnDate := t\<rparr>)"
    by (intro extendBorrowing_stored [OF assms]) simp_all
  with h show "\<exists>s'. extendBorrowing e req s = (s', Inr (br\<lparr>expectedReturnDate := t\<rparr>))
      \<and> findBorrowing s' (ext_borrowingId req) = Some (br\<lparr>expectedReturnDate := t\<rparr>)
      \<and> br_status (br\<lparr>expectedReturnDate := t\<rparr>) = BORROWED"
    by auto
next
  assume "br_status br = BORROWED \<and> \<not> storable e (extendedDate e x br)"
  with assms at_least_one_not_zero [OF assms(2)]
  show "extendBorrowing e req s = (s, Inl STORE_REFUSED)"
    by (auto simp: extendBorrowing_def storable_def split: option.splits)
next
  fix q assume h: "x = Finite q \<and> q < 10 ^ 21"
  with assms(2) have "1 \<le> q" by simp
  with h show "extendedDate e x br
      = timeClip (setDate e (expectedReturnDate br)
                   (getDate e (expectedReturnDate br) + \<lfloor>q\<rfloor>))"
    by (simp add: extendedDate_whole_part)
next
  fix q c assume h: "x = Finite q \<and> q < 10 ^ 21 \<and> (\<forall>t. tzaUtc e t = c \<and> tzaLocal e t = c)"
  with assms(2) have q: "1 \<le> q" by simp
  from h have "setDate e (expectedReturnDate br) (getDate e (expectedReturnDate br) + \<lfloor>q\<rfloor>)
      = expectedReturnDate br + \<lfloor>q\<rfloor> * msPerDay"
    by (intro setDate_fixed_zone [where c = c]) simp_all
  with h q show "extendedDate e x br = timeClip (expectedReturnDate br + \<lfloor>q\<rfloor> * msPerDay)"
    by (simp add: extendedDate_whole_part)
next
  assume "x = PlusInfinity"
  then show "extendedDate e x br = None" by (simp add: extendedDate_def parseIntNum_def)
qed

theorem extend_borrowing_effects_witness:
  "extendBorrowing env0 (extendOf ''r3'' (Some 7)) storeDesk = (storeDesk, Inl INVALID_STATUS)
 \<and> (\<exists>s'. extendBorrowing env0 (extendOf ''r2'' (Some 7)) storeDesk
            = (s', Inr (mkBorrowing ''r2'' ''bob'' ''b1'' 1468800000 BORROWED))
       \<and> findBorrowing s' ''r2'' = Some (mkBorrowing ''r2'' ''bob'' ''b1'' 1468800000 BORROWED))
 \<and> extendBorrowing env0 (extendOf ''r2'' (Some 200000000)) storeDesk
     = (storeDesk, Inl STORE_REFUSED)"
proof -
  let ?r3 = "mkBorrowing ''r3'' ''ann'' ''b2'' 500 OVERDUE"
  let ?r2 = "mkBorrowing ''r2'' ''bob'' ''b1'' 864000000 BORROWED"
  have d3: "body_additionalDays (extendOf ''r3'' (Some 7)) = Some (Finite 7)"
    and d2: "body_additionalDays (extendOf ''r2'' (Some 7)) = Some (Finite 7)"
    and d4: "body_additionalDays (extendOf ''r2'' (Some 200000000)) = Some (Finite 200000000)"
    by (simp_all add: extendOf_def)
  have one: "\<not> lessNum (Finite 7) (Finite 1)"
    and big: "\<not> lessNum (Finite 200000000) (Finite 1)" by simp_all
  have f3: "findBorrowing storeDesk (ext_borrowingId (extendOf ''r3'' (Some 7))) = Some ?r3"
    by (simp add: fixture_defs findBorrowing_def)
  have f2: "findBorrowing storeDesk (ext_borrowingId (extendOf ''r2'' (Some 7))) = Some ?r2"
    by (simp add: fixture_defs findBorrowing_def)
  have f4: "findBorrowing storeDesk (ext_borrowingId (extendOf ''r2'' (Some 200000000)))
      = Some ?r2"
    by (simp add: fixture_defs findBorrowing_def)
  have st3: "br_status ?r3 \<noteq> BORROWED" and st2: "br_status ?r2 = BORROWED"
    by (simp_all add: mkBorrowing_def)
  have e7: "extendedDate env0 (Finite 7) ?r2 = Some 1468800000"
    by (simp add: extendedDate_env0 timeClip_eval mkBorrowing_def msPerDay_def)
  have e8: "extendedDate env0 (Finite 200000000) ?r2 = None"
    by (simp add: extendedDate_env0 timeClip_eval mkBorrowing_def msPerDay_def)
  have ok: "br_status ?r2 = BORROWED \<and> extendedDate env0 (Finite 7) ?r2 = Some 1468800000
      \<and> storesInstant env0 1468800000"
    using st2 e7 by (simp add: env0_def)
  have no: "br_status ?r2 = BORROWED \<and> \<not> storable env0 (extendedDate env0 (Finite 200000000) ?r2)"
    using st2 by (simp add: e8 storable_env0)
  have p1: "extendBorrowing env0 (extendOf ''r3'' (Some 7)) storeDesk
      = (storeDesk, Inl INVALID_STATUS)"
    by (rule extend_borrowing_effects [OF d3 one f3, THEN conjunct1, THEN mp, OF st3])
  have "\<exists>s'. extendBorrowing env0 (extendOf ''r2'' (Some 7)) storeDesk
         = (s', Inr (?r2\<lparr>expectedReturnDate := 1468800000\<rparr>))
      \<and> findBorrowing s' (ext_borrowingId (extendOf ''r2'' (Some 7)))
         = Some (?r2\<lparr>expectedReturnDate := 1468800000\<rparr>)
      \<and> br_status (?r2\<lparr>expectedReturnDate := 1468800000\<rparr>) = BORROWED"
    by (rule extend_borrowing_effects [OF d2 one f2, THEN conjunct2, THEN conjunct1,
          THEN spec, THEN mp, OF ok])
  then obtain s' where
    "extendBorrowing env0 (extendOf ''r2'' (Some 7)) storeDesk
       = (s', Inr (?r2\<lparr>expectedReturnDate := 1468800000\<rparr>))"
    "findBorrowing s' (ext_borrowingId (extendOf ''r2'' (Some 7)))
       = Some (?r2\<lparr>expectedReturnDate := 1468800000\<rparr>)"
    by blast
  then have p2: "\<exists>s'. extendBorrowing env0 (extendOf ''r2'' (Some 7)) storeDesk
            = (s', Inr (mkBorrowing ''r2'' ''bob'' ''b1'' 1468800000 BORROWED))
       \<and> findBorrowing s' ''r2'' = Some (mkBorrowing ''r2'' ''bob'' ''b1'' 1468800000 BORROWED)"
    by (simp add: mkBorrowing_def extendOf_def)
  have p3: "extendBorrowing env0 (extendOf ''r2'' (Some 200000000)) storeDesk
      = (storeDesk, Inl STORE_REFUSED)"
    by (rule extend_borrowing_effects [OF d4 big f4, THEN conjunct2, THEN conjunct2,
          THEN conjunct1, THEN mp, OF no])
  from p1 p2 p3 show ?thesis by simp
qed

section \<open>Book update and the copy counts\<close>

lemma wholeInt32_of_int:
  "wholeInt32 (Finite (of_int a)) = (- 2147483648 \<le> a \<and> a \<le> 2147483647)"
  by (simp add: wholeInt32_def)

lemma updateBook_applied:
  assumes "findBook s (upd_id req) = Some bk" and "\<not> isbnTaken req bk s"
    and "\<not> copiesRejected req" and "numbersFit req" and "isbnFree req s"
    and "refsOnRecord req s"
  shows "\<exists>s'. updateBook req s = (s', Inr (applyUpdate req bk))
            \<and> findBook s' (upd_id req) = Some (applyUpdate req bk)"
proof -
  let ?s1 = "s\<lparr>books := map (\<lambda>b. if b_id b = upd_id req then applyUpdate req b else b)
                           (books s)\<rparr>"
  have id: "b_id bk = upd_id req" using assms(1) by (rule findBook_id)
  have run: "updateBook req s
      = (createAuditLog ?s1 (updatedAudit req), Inr (applyUpdate req bk))"
    using assms by (simp add: updateBook_def updateBookRow_def)
  have "findBook ?s1 (upd_id req) = Some (applyUpdate req bk)"
    using find_map_same_key [of b_id "applyUpdate req" "upd_id req" "upd_id req" "books s"]
      assms(1) id
    by (simp add: findBook_def applyUpdate_def)
  then have "findBook (createAuditLog ?s1 (updatedAudit req)) (upd_id req)
      = Some (applyUpdate req bk)"
    by (simp add: findBook_def createAuditLog_def)
  with run show ?thesis by blast
qed

text \<open>
  C10, as the specification words it: with only one of the two copy counts sent, the
  update is carried out whatever the count. The columns of the counts are 32-bit
  integers. Here the body sends only \<open>copiesAvailable = 2147483648\<close> for the book \<open>b3\<close>:
  the store refuses the row and the book is as it was.
\<close>

theorem update_past_column_refused:
  "updateBook (copiesUpdate ''b3'' None (Some 2147483648)) storeDesk
     = (storeDesk, Inl STORE_REFUSED)"
  by (simp add: fixture_defs store_defs updateBook_def isbnTaken_def copiesRejected_def
      numbersFit_def countFits_def wholeInt32_def copiesUpdate_def)

text \<open>
  C10, as the code has it: an update of a book on record whose ISBN check passes is
  answered VALIDATION_ERROR, with nothing written, when the body carries both copy
  counts and the available count is the greater. Otherwise nothing is compared with a
  stored count: the update is applied when the store takes the new row, that is when
  the numbers sent are whole and fit their 32-bit columns, the ISBN sent is not another
  book's and a category or shelf sent is on record; when the store does not take the
  row the call is answered an error and nothing is written. A count that is sent is
  stored as sent and the other is kept. With only a whole available count that fits its
  column sent, and nothing else, the update is carried out and the stored book holds
  that count beside the old total, whatever the two are.
\<close>

theorem update_book_copies_check:
  assumes "findBook s (upd_id req) = Some bk" and "\<not> isbnTaken req bk s"
  shows "(\<forall>a t. upd_copiesAvailable req = Some (Some (Finite a))
              \<and> upd_copiesTotal req = Some (Some (Finite t)) \<and> t < a
            \<longrightarrow> updateBook req s = (s, Inl VALIDATION_ERROR))
       \<and> (\<not> copiesRejected req \<and> numbersFit req \<and> isbnFree req s \<and> refsOnRecord req s
            \<longrightarrow> (\<exists>s'. updateBook req s = (s', Inr (applyUpdate req bk))
                   \<and> findBook s' (upd_id req) = Some (applyUpdate req bk)))
       \<and> (\<not> copiesRejected req
            \<and> \<not> (numbersFit req \<and> isbnFree req s \<and> refsOnRecord req s)
            \<longrightarrow> (\<exists>err. updateBook req s = (s, Inl err)))
       \<and> (upd_copiesAvailable req = None \<or> upd_copiesTotal req = None
            \<longrightarrow> \<not> copiesRejected req)
       \<and> (\<forall>a. upd_copiesAvailable req = Some (Some (Finite (of_int a)))
              \<and> upd_copiesTotal req = None
            \<longrightarrow> copiesAvailable (applyUpdate req bk) = a
              \<and> copiesTotal (applyUpdate req bk) = copiesTotal bk)
       \<and> (\<forall>t. upd_copiesTotal req = Some (Some (Finite (of_int t)))
              \<and> upd_copiesAvailable req = None
            \<longrightarrow> copiesTotal (applyUpdate req bk) = t
              \<and> copiesAvailable (applyUpdate req bk) = copiesAvailable bk)
       \<and> (\<forall>a. upd_copiesAvailable req = Some (Some (Finite (of_int a)))
              \<and> - 2147483648 \<le> a \<and> a \<le> 2147483647
              \<and> upd_copiesTotal req = None \<and> upd_publicationYear req = None
              \<and> upd_isbn req = None \<and> upd_categoryId req = None \<and> upd_shelfId req = None
            \<longrightarrow> (\<exists>s' b. updateBook req s = (s', Inr b) \<and> findBook s' (upd_id req) = Some b
                   \<and> copiesAvailable b = a \<and> copiesTotal b = copiesTotal bk))"
proof (intro conjI allI impI)
  fix a t
  assume "upd_copiesAvailable req = Some (Some (Finite a))
      \<and> upd_copiesTotal req = Some (Some (Finite t)) \<and> t < a"
  with assms show "updateBook req s = (s, Inl VALIDATION_ERROR)"
    by (simp add: updateBook_def copiesRejected_def toNumber_def)
next
  assume "\<not> copiesRejected req \<and> numbersFit req \<and> isbnFree req s \<and> refsOnRecord req s"
  with assms show "\<exists>s'. updateBook req s = (s', Inr (applyUpdate req bk))
                   \<and> findBook s' (upd_id req) = Some (applyUpdate req bk)"
    by (intro updateBook_applied) simp_all
next
  assume "\<not> copiesRejected req
      \<and> \<not> (numbersFit req \<and> isbnFree req s \<and> refsOnRecord req s)"
  with assms show "\<exists>err. updateBook req s = (s, Inl err)"
    by (auto simp: updateBook_def)
next
  assume "upd_copiesAvailable req = None \<or> upd_copiesTotal req = None"
  then show "\<not> copiesRejected req"
    by (auto simp: copiesRejected_def split: option.splits)
next
  fix a assume h: "upd_copiesAvailable req = Some (Some (Finite (of_int a)))
      \<and> - 2147483648 \<le> a \<and> a \<le> 2147483647
      \<and> upd_copiesTotal req = None \<and> upd_publicationYear req = None
      \<and> upd_isbn req = None \<and> upd_categoryId req = None \<and> upd_shelfId req = None"
  then have "\<not> copiesRejected req" "numbersFit req" "isbnFree req s" "refsOnRecord req s"
    by (simp_all add: copiesRejected_def numbersFit_def countFits_def wholeInt32_of_int
        isbnFree_def refsOnRecord_def)
  from updateBook_applied [OF assms this] obtain s' where
    "updateBook req s = (s', Inr (applyUpdate req bk))"
    "findBook s' (upd_id req) = Some (applyUpdate req bk)" by blast
  moreover from h have "copiesAvailable (applyUpdate req bk) = a"
    "copiesTotal (applyUpdate req bk) = copiesTotal bk"
    by (simp_all add: applyUpdate_def orKeep_def sentCount_def)
  ultimately show "\<exists>s' b. updateBook req s = (s', Inr b) \<and> findBook s' (upd_id req) = Some b
      \<and> copiesAvailable b = a \<and> copiesTotal b = copiesTotal bk"
    by blast
qed (simp_all add: applyUpdate_def orKeep_def sentCount_def)

theorem update_book_copies_check_witness:
  "updateBook (copiesUpdate ''b3'' (Some 1) (Some 4)) storeDesk = (storeDesk, Inl VALIDATION_ERROR)
 \<and> (\<exists>s' b. updateBook (copiesUpdate ''b3'' None (Some 4)) storeDesk = (s', Inr b)
       \<and> findBook s' ''b3'' = Some b \<and> copiesAvailable b = 4 \<and> copiesTotal b = 1)
 \<and> (\<exists>err. updateBook (copiesUpdate ''b3'' None (Some (1 / 2))) storeDesk
       = (storeDesk, Inl err))"
proof -
  let ?both = "copiesUpdate ''b3'' (Some 1) (Some 4)"
  let ?one = "copiesUpdate ''b3'' None (Some (of_int 4))"
  let ?half = "copiesUpdate ''b3'' None (Some (1 / 2))"
  let ?b3 = "mkBook ''b3'' ''Emma'' 1 1"
  have f1: "findBook storeDesk (upd_id ?both) = Some ?b3"
    and f2: "findBook storeDesk (upd_id ?one) = Some ?b3"
    and f3: "findBook storeDesk (upd_id ?half) = Some ?b3"
    by (simp_all add: fixture_defs findBook_def)
  have i1: "\<not> isbnTaken ?both ?b3 storeDesk" and i2: "\<not> isbnTaken ?one ?b3 storeDesk"
    and i3: "\<not> isbnTaken ?half ?b3 storeDesk"
    by (simp_all add: isbnTaken_def copiesUpdate_def)
  have c1: "upd_copiesAvailable ?both = Some (Some (Finite 4))
      \<and> upd_copiesTotal ?both = Some (Some (Finite 1)) \<and> (1::rat) < 4"
    by (simp add: copiesUpdate_def)
  have c2: "upd_copiesAvailable ?one = Some (Some (Finite (of_int 4)))
      \<and> - 2147483648 \<le> (4::int) \<and> (4::int) \<le> 2147483647
      \<and> upd_copiesTotal ?one = None \<and> upd_publicationYear ?one = None
      \<and> upd_isbn ?one = None \<and> upd_categoryId ?one = None \<and> upd_shelfId ?one = None"
    by (simp add: copiesUpdate_def)
  have c3: "\<not> copiesRejected ?half
      \<and> \<not> (numbersFit ?half \<and> isbnFree ?half storeDesk \<and> refsOnRecord ?half storeDesk)"
    by (simp add: copiesRejected_def numbersFit_def countFits_def wholeInt32_def
        copiesUpdate_def floor_evals)
  have p1: "updateBook ?both storeDesk = (storeDesk, Inl VALIDATION_ERROR)"
    by (rule update_book_copies_check [OF f1 i1, THEN conjunct1, THEN spec, THEN spec,
          THEN mp, OF c1])
  have "\<exists>s' b. updateBook ?one storeDesk = (s', Inr b) \<and> findBook s' (upd_id ?one) = Some b
      \<and> copiesAvailable b = 4 \<and> copiesTotal b = copiesTotal ?b3"
    by (rule update_book_copies_check [OF f2 i2, THEN conjunct2, THEN conjunct2,
          THEN conjunct2, THEN conjunct2, THEN conjunct2, THEN conjunct2, THEN spec, THEN mp,
          OF c2])
  then have p2: "\<exists>s' b. updateBook (copiesUpdate ''b3'' None (Some 4)) storeDesk = (s', Inr b)
       \<and> findBook s' ''b3'' = Some b \<and> copiesAvailable b = 4 \<and> copiesTotal b = 1"
    by (simp add: copiesUpdate_def mkBook_def)
  have p3: "\<exists>err. updateBook ?half storeDesk = (storeDesk, Inl err)"
    by (rule update_book_copies_check [OF f3 i3, THEN conjunct2, THEN conjunct2,
          THEN conjunct1, THEN mp, OF c3])
  from p1 p2 p3 show ?thesis by simp
qed

section \<open>The inventory rule\<close>

text \<open>
  C1: the copies available of every book stay between zero and its total, whatever the
  operations. The handler of a book update holds this rule itself (``Available copies
  cannot exceed total copies'') but only compares the two counts when both are sent.
  Here the store keeps the rule, the body sends only \<open>copiesAvailable = 5\<close> for a book
  with one copy in all, and the store after the update breaks the rule.
\<close>

theorem update_breaks_inventory:
  "inventoryOk store0
   \<and> snd (updateBook (copiesUpdate ''b1'' None (Some 5)) store0)
       = Inr (mkBook ''b1'' ''Dune'' 1 5)
   \<and> \<not> inventoryOk (fst (updateBook (copiesUpdate ''b1'' None (Some 5)) store0))"
  by (simp add: inventoryOk_def fixture_defs store_defs updateBook_def isbnTaken_def
      copiesRejected_def numbersFit_def countFits_def wholeInt32_def toNumber_def sentCount_def sentYear_def
      isbnFree_def refsOnRecord_def
      applyUpdate_def orKeep_def updatedAudit_def)

section \<open>Two borrows of the last copy\<close>

lemma borrow_steps_Finished [simp]:
  "borrow_steps n e now nid req (Finished r, s) = (Finished r, s)"
  by (induction n) simp_all

text \<open>Eight steps, taken without interruption, are the handler.\<close>

lemma borrow_steps_run:
  "borrow_steps 8 e now nid req (AtFindBook, s)
     = (Finished (snd (borrowBook e now nid req s)), fst (borrowBook e now nid req s))"
proof (cases "findBook s (bookIdOf req)")
  case None
  then show ?thesis by (simp add: eval_nat_numeral borrowBook_def)
next
  case bk: (Some bk)
  show ?thesis
  proof (cases "findUser s (borrowerOf req)")
    case None
    with bk show ?thesis by (simp add: eval_nat_numeral borrowBook_def)
  next
    case (Some u)
    with bk show ?thesis
      by (simp add: eval_nat_numeral borrowBook_def Let_def split: option.splits)
  qed
qed

lemma interleave_append:
  "interleave e c1 c2 (xs @ ys) cfg = interleave e c1 c2 ys (interleave e c1 c2 xs cfg)"
proof (induction xs arbitrary: cfg)
  case Nil
  then show ?case by simp
next
  case (Cons w ws)
  obtain p1 p2 s where cfg: "cfg = (p1, p2, s)" by (cases cfg) auto
  show ?case by (cases w) (simp_all add: cfg Cons.IH split: prod.splits)
qed

lemma interleave_First:
  "interleave e c1 c2 (replicate n First) (p1, p2, s)
     = (fst (borrow_steps n e (fst c1) (fst (snd c1)) (snd (snd c1)) (p1, s)), p2,
        snd (borrow_steps n e (fst c1) (fst (snd c1)) (snd (snd c1)) (p1, s)))"
  by (induction n arbitrary: p1 s) (simp_all split: prod.splits)

lemma interleave_Second:
  "interleave e c1 c2 (replicate n Second) (p1, p2, s)
     = (p1, fst (borrow_steps n e (fst c2) (fst (snd c2)) (snd (snd c2)) (p2, s)),
        snd (borrow_steps n e (fst c2) (fst (snd c2)) (snd (snd c2)) (p2, s)))"
  by (induction n arbitrary: p2 s) (simp_all split: prod.splits)

lemma interleave_serial:
  "interleave e (t1, n1, r1) (t2, n2, r2) (replicate 8 First @ replicate 8 Second)
     (AtFindBook, AtFindBook, s)
   = (Finished (snd (borrowBook e t1 n1 r1 s)),
      Finished (snd (borrowBook e t2 n2 r2 (fst (borrowBook e t1 n1 r1 s)))),
      fst (borrowBook e t2 n2 r2 (fst (borrowBook e t1 n1 r1 s))))"
  by (simp add: interleave_append interleave_First interleave_Second borrow_steps_run)

lemma second_finds_no_copy:
  assumes bk: "findBook s (bookIdOf r1) = Some bk" and one: "copiesAvailable bk = 1"
      and same: "bookIdOf r2 = bookIdOf r1"
      and ok1: "borrowBook e t1 n1 r1 s = (s1, Inr b1)"
      and v2: "\<not> forOtherDenied r2" "truthy (body_bookId r2)"
  shows "borrowBook e t2 n2 r2 s1 = (s1, Inl NO_COPIES_AVAILABLE)
       \<and> findBook s1 (bookIdOf r1) = Some (bk\<lparr>copiesAvailable := 0\<rparr>)"
proof -
  from borrowBook_Inr [OF ok1] bk have s1: "s1 = borrowedStore e t1 n1 r1 bk s" by auto
  have kid: "b_id bk = bookIdOf r1" using bk by (rule findBook_id)
  have f: "findBook s1 (bookIdOf r1) = Some (takeCopy bk)"
    using find_map_same_key [of b_id takeCopy "bookIdOf r1" "bookIdOf r1" "books s"] bk kid
    by (simp add: s1 borrowedStore_def findBook_def takeCopy_def)
  with one v2 same show ?thesis by (simp add: borrowBook_def takeCopy_def)
qed

text \<open>
  C2, as the specification words it: of two concurrent borrows of a book with one copy
  available exactly one succeeds, and the copies available end at zero and never go
  negative. Here the two handlers take turns at the store, call by call: each reads the
  book while it still shows one copy, each passes its checks, each creates its borrowing
  and each takes a copy. Both are answered with their borrowing, and the book is left
  with minus one copy available.
\<close>

theorem both_borrow_the_last_copy:
  "fst (interleave env0 callAnn callBob
          [First, Second, First, Second, First, Second, First, Second,
           First, Second, First, Second, First, Second, First, Second]
          (AtFindBook, AtFindBook, store0))
     = Finished (Inr (newBorrowing env0 1000 ''n1'' (snd (snd callAnn))))
 \<and> fst (snd (interleave env0 callAnn callBob
          [First, Second, First, Second, First, Second, First, Second,
           First, Second, First, Second, First, Second, First, Second]
          (AtFindBook, AtFindBook, store0)))
     = Finished (Inr (newBorrowing env0 1000 ''n2'' (snd (snd callBob))))
 \<and> map copiesAvailable (books (snd (snd (interleave env0 callAnn callBob
          [First, Second, First, Second, First, Second, First, Second,
           First, Second, First, Second, First, Second, First, Second]
          (AtFindBook, AtFindBook, store0))))) = [- 1]"
  by (simp add: callAnn_def callBob_def fixture_defs store_defs borrow_defs Let_def)

text \<open>
  C2, as the code has it: the checks and the decrement are separate store calls, and
  only calls that do not overlap are safe. When the second borrow of a book with one
  copy available starts after the first has been answered with its borrowing, the second
  (allowed by the privilege check and naming the book) is answered
  NO_COPIES_AVAILABLE, and the book is left with zero copies available.
\<close>

theorem borrows_in_turn_one_copy:
  assumes "findBook s (bookIdOf r1) = Some bk" and "copiesAvailable bk = 1"
      and "bookIdOf r2 = bookIdOf r1"
      and "snd (borrowBook e t1 n1 r1 s) = Inr b1"
      and "\<not> forOtherDenied r2" and "truthy (body_bookId r2)"
  shows "\<exists>s1. interleave e (t1, n1, r1) (t2, n2, r2)
                (replicate 8 First @ replicate 8 Second) (AtFindBook, AtFindBook, s)
              = (Finished (Inr b1), Finished (Inl NO_COPIES_AVAILABLE), s1)
            \<and> findBook s1 (bookIdOf r1) = Some (bk\<lparr>copiesAvailable := 0\<rparr>)"
proof -
  obtain s1 where run: "borrowBook e t1 n1 r1 s = (s1, Inr b1)"
    using assms(4) by (cases "borrowBook e t1 n1 r1 s") auto
  from second_finds_no_copy [OF assms(1) assms(2) assms(3) run assms(5) assms(6)]
  have "borrowBook e t2 n2 r2 s1 = (s1, Inl NO_COPIES_AVAILABLE)"
    and "findBook s1 (bookIdOf r1) = Some (bk\<lparr>copiesAvailable := 0\<rparr>)" by simp_all
  with run show ?thesis by (simp add: interleave_serial)
qed

theorem borrows_in_turn_one_copy_witness:
  "\<exists>s1. interleave env0 callAnn callBob (replicate 8 First @ replicate 8 Second)
           (AtFindBook, AtFindBook, store0)
         = (Finished (Inr (newBorrowing env0 1000 ''n1''
                            (borrowFor ''admin'' ADMIN (Some ''ann'') ''b1''))),
            Finished (Inl NO_COPIES_AVAILABLE), s1)
       \<and> findBook s1 ''b1'' = Some (mkBook ''b1'' ''Dune'' 1 0)"
proof -
  let ?r1 = "borrowFor ''admin'' ADMIN (Some ''ann'') ''b1''"
  let ?r2 = "borrowFor ''admin'' ADMIN (Some ''bob'') ''b1''"
  let ?bk = "mkBook ''b1'' ''Dune'' 1 1"
  have h1: "findBook store0 (bookIdOf ?r1) = Some ?bk"
    by (simp add: fixture_defs findBook_def bookIdOf_def)
  have h2: "copiesAvailable ?bk = 1" by (simp add: mkBook_def)
  have h3: "bookIdOf ?r2 = bookIdOf ?r1" by (simp add: borrowFor_def bookIdOf_def)
  have h4: "snd (borrowBook env0 1000 ''n1'' ?r1 store0) = Inr (newBorrowing env0 1000 ''n1'' ?r1)"
    by (rule admin_for_other_borrows)
  have h5: "\<not> forOtherDenied ?r2" by (simp add: borrowFor_def forOtherDenied_def)
  have h6: "truthy (body_bookId ?r2)" by (simp add: borrowFor_def truthy_def)
  from borrows_in_turn_one_copy [OF h1 h2 h3 h4 h5 h6, of 1000 "''n2''"]
  show ?thesis by (simp add: callAnn_def callBob_def mkBook_def bookIdOf_def borrowFor_def)
qed

section \<open>The overdue check\<close>

lemma processOverdue_cases:
  assumes "processOverdue fails now r s = (s', t)"
  shows "(t = Threw \<and> (s' = s \<or> s' = flagRow (br_id (fst r)) s))
       \<or> (t = Skipped \<and> s' = flagRow (br_id (fst r)) s \<and> snd (snd r) \<noteq> None
            \<and> notifiedToday (flagRow (br_id (fst r)) s) now r)
       \<or> ((t = Notified \<or> t = ThrewAfterNotifying) \<and> snd (snd r) \<noteq> None
            \<and> \<not> notifiedToday (flagRow (br_id (fst r)) s) now r
            \<and> s' = createNotification (flagRow (br_id (fst r)) s) (rowNote now r))"
proof -
  obtain b u bk where r: "r = (b, u, bk)" by (cases r) auto
  from assms show ?thesis
    by (auto simp: r processOverdue_def updateBorrowingRow_def flagRow_def rowTitle_def
        rowNote_def notifiedToday_def split: if_splits option.splits)
qed

lemma today_le: "today now \<le> now"
  by (simp add: today_def msPerDay_def)

lemma notifiedToday_flagRow [simp]: "notifiedToday (flagRow k s) now r = notifiedToday s now r"
  by (simp add: notifiedToday_def existingNotification_def flagRow_def)

lemma find_append_Some: "find P xs = Some x \<Longrightarrow> find P (xs @ ys) = Some x"
  by (induction xs) (auto split: if_splits)

lemma notifiedToday_create_mono:
  "notifiedToday s now r \<Longrightarrow> notifiedToday (createNotification s n) now r"
  by (auto simp: notifiedToday_def existingNotification_def createNotification_def
      dest: find_append_Some)

lemma contains_overdue_message:
  "contains (message (overdueNotification now b ttl)) ttl"
proof -
  have "message (overdueNotification now b ttl)
      = (''Your book '' @ [CHR 0x22]) @ ttl @ ([CHR 0x22] @ '' is overdue by ''
         @ showInt (daysOverdue now b) @ '' day(s). Please return it as soon as possible.'')"
    by (simp add: overdueNotification_def)
  then show ?thesis unfolding contains_def by (metis sublist_appendI)
qed

lemma find_append_hit: "P x \<Longrightarrow> find P (xs @ [x]) \<noteq> None"
  by (induction xs) auto

lemma overdueNotification_fields [simp]:
  "n_userId (overdueNotification now b ttl) = userId b"
  "n_type (overdueNotification now b ttl) = N_OVERDUE"
  "createdAt (overdueNotification now b ttl) = now"
  by (simp_all add: overdueNotification_def)

lemma notifiedToday_created:
  assumes "userId (fst r') = userId (fst r)" and "rowTitle r' = rowTitle r"
  shows "notifiedToday (createNotification s (rowNote now r)) now r'"
proof -
  let ?P = "\<lambda>n. n_userId n = userId (fst r') \<and> n_type n = N_OVERDUE \<and> today now \<le> createdAt n
               \<and> contains (message n) (rowTitle r')"
  have "?P (rowNote now r)"
    using assms today_le [of now] contains_overdue_message [of now "fst r" "rowTitle r"]
    by (simp add: rowNote_def)
  then have "find ?P (notifications s @ [rowNote now r]) \<noteq> None" by (rule find_append_hit)
  then show ?thesis
    by (simp add: notifiedToday_def existingNotification_def createNotification_def)
qed

lemma sweepLoop_notifications:
  "sweepLoop fails now rows s = (s', sent, threw) \<Longrightarrow>
     notifications s' = notifications s @ map (rowNote now) sent
   \<and> distinct (map rowKey sent)
   \<and> list_all (\<lambda>r. \<not> notifiedToday s now r) sent
   \<and> set sent \<subseteq> set rows"
proof (induction rows arbitrary: s s' sent threw)
  case Nil
  then show ?case by simp
next
  case (Cons r rows)
  obtain s1 t where p: "processOverdue fails now r s = (s1, t)"
    by (cases "processOverdue fails now r s") auto
  note c = processOverdue_cases [OF p]
  show ?case
  proof (cases t)
    case Threw
    with Cons.prems p c show ?thesis by (auto simp: flagRow_def)
  next
    case Skipped
    with Cons.prems p have loop: "sweepLoop fails now rows s1 = (s', sent, threw)" by simp
    from c Skipped have s1: "s1 = flagRow (br_id (fst r)) s" by auto
    from Cons.IH [OF loop] show ?thesis by (auto simp: s1 flagRow_def list_all_iff notifiedToday_def existingNotification_def)
  next
    case ThrewAfterNotifying
    with Cons.prems p have e: "s' = s1" "sent = [r]" by auto
    from c ThrewAfterNotifying have "\<not> notifiedToday s now r"
      and "s1 = createNotification (flagRow (br_id (fst r)) s) (rowNote now r)" by auto
    then show ?thesis by (simp add: e createNotification_def flagRow_def)
  next
    case Notified
    obtain s2 sent2 threw2 where loop: "sweepLoop fails now rows s1 = (s2, sent2, threw2)"
      by (cases "sweepLoop fails now rows s1") auto
    with Cons.prems p Notified have e: "s' = s2" "sent = r # sent2" by auto
    from c Notified have nn: "\<not> notifiedToday s now r"
      and s1: "s1 = createNotification (flagRow (br_id (fst r)) s) (rowNote now r)" by auto
    note ih = Cons.IH [OF loop]
    have fresh: "rowKey r \<notin> set (map rowKey sent2)"
    proof
      assume "rowKey r \<in> set (map rowKey sent2)"
      then obtain r' where r': "r' \<in> set sent2" "rowKey r' = rowKey r" by auto
      then have "notifiedToday s1 now r'"
        unfolding s1 by (intro notifiedToday_created) (simp_all add: rowKey_def)
      moreover from ih r'(1) have "\<not> notifiedToday s1 now r'" by (simp add: list_all_iff)
      ultimately show False by simp
    qed
    have old: "list_all (\<lambda>r. \<not> notifiedToday s now r) sent2"
    proof -
      { fix r' assume "r' \<in> set sent2"
        with ih have n1: "\<not> notifiedToday s1 now r'" by (simp add: list_all_iff)
        have "\<not> notifiedToday s now r'"
        proof
          assume "notifiedToday s now r'"
          then have "notifiedToday (flagRow (br_id (fst r)) s) now r'" by simp
          then have "notifiedToday s1 now r'" unfolding s1 by (rule notifiedToday_create_mono)
          with n1 show False by simp
        qed }
      then show ?thesis by (simp add: list_all_iff)
    qed
    from ih have "notifications s2 = notifications s1 @ map (rowNote now) sent2" by simp
    then have "notifications s' = notifications s @ map (rowNote now) sent"
      by (simp add: e s1 createNotification_def flagRow_def)
    with ih fresh old nn show ?thesis by (auto simp: e)
  qed
qed

lemma flagged_empty [simp]: "flagged {} bs = bs"
  by (simp add: flagged_def)

lemma flagged_flagged: "flagged G (flagged F bs) = flagged (F \<union> G) bs"
  by (auto simp: flagged_def)

lemma borrowings_flagRow: "borrowings (flagRow k s) = flagged {k} (borrowings s)"
  by (simp add: flagRow_def flagged_def)

lemma flagged_keys [simp]:
  "map br_id (flagged F bs) = map br_id bs"
  "map userId (flagged F bs) = map userId bs"
  "map bookId (flagged F bs) = map bookId bs"
  by (simp_all add: flagged_def comp_def)

lemma processOverdue_frame:
  assumes "processOverdue fails now r s = (s', t)"
  shows "\<exists>F. F \<subseteq> {br_id (fst r)} \<and> borrowings s' = flagged F (borrowings s)
           \<and> users s' = users s \<and> books s' = books s"
proof -
  from processOverdue_cases [OF assms]
  have "s' = s \<or> s' = flagRow (br_id (fst r)) s
      \<or> s' = createNotification (flagRow (br_id (fst r)) s) (rowNote now r)" by auto
  then show ?thesis
  proof (elim disjE)
    assume "s' = s"
    then have "{} \<subseteq> {br_id (fst r)} \<and> borrowings s' = flagged {} (borrowings s)
           \<and> users s' = users s \<and> books s' = books s" by simp
    then show ?thesis by blast
  next
    assume "s' = flagRow (br_id (fst r)) s"
    then have "{br_id (fst r)} \<subseteq> {br_id (fst r)}
           \<and> borrowings s' = flagged {br_id (fst r)} (borrowings s)
           \<and> users s' = users s \<and> books s' = books s"
      by (simp add: borrowings_flagRow) (simp add: flagRow_def)
    then show ?thesis by blast
  next
    assume "s' = createNotification (flagRow (br_id (fst r)) s) (rowNote now r)"
    then have "{br_id (fst r)} \<subseteq> {br_id (fst r)}
           \<and> borrowings s' = flagged {br_id (fst r)} (borrowings s)
           \<and> users s' = users s \<and> books s' = books s"
      by (simp add: createNotification_def flagRow_def flagged_def)
    then show ?thesis by blast
  qed
qed

lemma sweepLoop_frame:
  "sweepLoop fails now rows s = (s', sent, threw) \<Longrightarrow>
   \<exists>F. F \<subseteq> set (map (br_id \<circ> fst) rows) \<and> borrowings s' = flagged F (borrowings s)
        \<and> users s' = users s \<and> books s' = books s"
proof (induction rows arbitrary: s s' sent threw)
  case Nil
  then have "{} \<subseteq> set (map (br_id \<circ> fst) []) \<and> borrowings s' = flagged {} (borrowings s)
        \<and> users s' = users s \<and> books s' = books s" by simp
  then show ?case by blast
next
  case (Cons r rows)
  obtain s1 t where p: "processOverdue fails now r s = (s1, t)"
    by (cases "processOverdue fails now r s") auto
  from processOverdue_frame [OF p] obtain F1 where
    f1: "F1 \<subseteq> {br_id (fst r)}" "borrowings s1 = flagged F1 (borrowings s)"
        "users s1 = users s" "books s1 = books s" by blast
  have stop: "s' = s1 \<Longrightarrow> ?case"
  proof -
    assume "s' = s1"
    with f1 have "F1 \<subseteq> set (map (br_id \<circ> fst) (r # rows)) \<and> borrowings s' = flagged F1 (borrowings s)
        \<and> users s' = users s \<and> books s' = books s" by auto
    then show ?case by blast
  qed
  have go: "\<And>sent2 threw2. sweepLoop fails now rows s1 = (s', sent2, threw2) \<Longrightarrow> ?case"
  proof -
    fix sent2 threw2 assume "sweepLoop fails now rows s1 = (s', sent2, threw2)"
    from Cons.IH [OF this] obtain F2 where
      f2: "F2 \<subseteq> set (map (br_id \<circ> fst) rows)" "borrowings s' = flagged F2 (borrowings s1)"
          "users s' = users s1" "books s' = books s1" by blast
    with f1 have "F1 \<union> F2 \<subseteq> set (map (br_id \<circ> fst) (r # rows))
        \<and> borrowings s' = flagged (F1 \<union> F2) (borrowings s)
        \<and> users s' = users s \<and> books s' = books s"
      by (auto simp: flagged_flagged)
    then show ?case by blast
  qed
  show ?case
  proof (cases t)
    case Threw
    with Cons.prems p show ?thesis by (intro stop) auto
  next
    case ThrewAfterNotifying
    with Cons.prems p show ?thesis by (intro stop) auto
  next
    case Skipped
    with Cons.prems p show ?thesis by (intro go) auto
  next
    case Notified
    obtain s2 sent2 threw2 where loop: "sweepLoop fails now rows s1 = (s2, sent2, threw2)"
      by (cases "sweepLoop fails now rows s1") auto
    with Cons.prems p Notified have "s' = s2" by auto
    with loop show ?thesis by (intro go) auto
  qed
qed

lemma find_in_set: "k \<in> set (map key xs) \<Longrightarrow> find (\<lambda>x. key x = k) xs \<noteq> None"
  by (induction xs) auto

lemma processOverdue_served:
  assumes "fst (snd r) \<noteq> None" and "snd (snd r) \<noteq> None"
      and "br_id (fst r) \<in> set (map br_id (borrowings s))"
  shows "snd (processOverdue (\<lambda>_. False) now r s) \<in> {Notified, Skipped}
       \<and> borrowings (fst (processOverdue (\<lambda>_. False) now r s)) = flagged {br_id (fst r)} (borrowings s)"
proof -
  obtain b u bk where r: "r = (b, u, bk)" by (cases r) auto
  from assms(3) have "findBorrowing s (br_id (fst r)) \<noteq> None"
    unfolding findBorrowing_def by (rule find_in_set)
  with assms(1,2) show ?thesis
    by (auto simp: r processOverdue_def updateBorrowingRow_def flagged_def createNotification_def
        split: option.splits)
qed

lemma sweepLoop_served:
  "rowsReady s rows \<Longrightarrow>
   snd (snd (sweepLoop (\<lambda>_. False) now rows s)) = False
   \<and> borrowings (fst (sweepLoop (\<lambda>_. False) now rows s))
       = flagged (set (map (br_id \<circ> fst) rows)) (borrowings s)"
proof (induction rows arbitrary: s)
  case Nil
  then show ?case by simp
next
  case (Cons r rows)
  obtain s1 t where p: "processOverdue (\<lambda>_. False) now r s = (s1, t)"
    by (cases "processOverdue (\<lambda>_. False) now r s") auto
  from Cons.prems have rr: "fst (snd r) \<noteq> None" "snd (snd r) \<noteq> None"
      "br_id (fst r) \<in> set (map br_id (borrowings s))"
    by (simp_all add: rowsReady_def)
  from processOverdue_served [OF rr, of now] p
  have t: "t = Notified \<or> t = Skipped" and b1: "borrowings s1 = flagged {br_id (fst r)} (borrowings s)"
    by auto
  from Cons.prems b1 have "rowsReady s1 rows" by (simp add: rowsReady_def)
  from Cons.IH [OF this]
  have ih: "snd (snd (sweepLoop (\<lambda>_. False) now rows s1)) = False"
    "borrowings (fst (sweepLoop (\<lambda>_. False) now rows s1))
       = flagged (set (map (br_id \<circ> fst) rows)) (borrowings s1)" by simp_all
  have un: "{br_id (fst r)} \<union> set (map (br_id \<circ> fst) rows) = set (map (br_id \<circ> fst) (r # rows))"
    by auto
  obtain s2 sent2 threw2 where loop: "sweepLoop (\<lambda>_. False) now rows s1 = (s2, sent2, threw2)"
    by (cases "sweepLoop (\<lambda>_. False) now rows s1") auto
  from t show ?case
  proof
    assume "t = Notified"
    with p ih loop show ?thesis
      by (simp add: b1 flagged_flagged un)
  next
    assume "t = Skipped"
    with p ih show ?thesis
      by (simp add: b1 flagged_flagged un split: prod.splits)
  qed
qed

lemma overdueRows_ids:
  "set (map (br_id \<circ> fst) (overdueRows s now)) = br_id ` {b \<in> set (borrowings s). isOverdue now b}"
  by (auto simp: overdueRows_def isOverdue_def)

lemma find_not_None_iff: "(find P xs \<noteq> None) = (\<exists>x\<in>set xs. P x)"
  by (induction xs) auto

lemma rowsReady_overdueRows:
  assumes "joined s"
  shows "rowsReady s (overdueRows s now)"
  using assms
  by (auto simp: rowsReady_def joined_def overdueRows_def list_all_iff)

lemma flagged_overdue:
  assumes "distinct (map br_id (borrowings s))"
  shows "flagged (set (map (br_id \<circ> fst) (overdueRows s now))) (borrowings s)
       = map (\<lambda>b. if isOverdue now b then b\<lparr>br_status := OVERDUE\<rparr> else b) (borrowings s)"
proof -
  have "\<And>x. x \<in> set (borrowings s) \<Longrightarrow>
      (br_id x \<in> br_id ` {b \<in> set (borrowings s). isOverdue now b}) = isOverdue now x"
  proof -
    fix x assume x: "x \<in> set (borrowings s)"
    from assms have inj: "inj_on br_id (set (borrowings s))" by (simp add: distinct_map)
    show "(br_id x \<in> br_id ` {b \<in> set (borrowings s). isOverdue now b}) = isOverdue now x"
    proof
      assume "br_id x \<in> br_id ` {b \<in> set (borrowings s). isOverdue now b}"
      then obtain y where y: "y \<in> set (borrowings s)" "isOverdue now y" "br_id x = br_id y" by auto
      with inj x have "x = y" by (auto dest: inj_onD)
      with y show "isOverdue now x" by simp
    next
      assume "isOverdue now x"
      with x show "br_id x \<in> br_id ` {b \<in> set (borrowings s). isOverdue now b}" by auto
    qed
  qed
  then show ?thesis unfolding flagged_def overdueRows_ids by (intro map_cong) auto
qed

lemma none_overdue_after:
  assumes "borrowings s' = map (\<lambda>b. if isOverdue now b then b\<lparr>br_status := OVERDUE\<rparr> else b) (borrowings s)"
  shows "overdueRows s' now = []"
  unfolding overdueRows_def assms
  by (auto simp: filter_empty_conv isOverdue_def)

lemma checkOverdueBooks_nothing_due:
  "overdueRows s now = [] \<Longrightarrow>
   checkOverdueBooks f now s = (s, if f FindOverdue then Caught else Completed 0)"
  by (simp add: checkOverdueBooks_def)

lemma rowKey_overdueRows:
  "r \<in> set (overdueRows s now) \<Longrightarrow>
   rowKey r = (userId (fst r), case findBook s (bookId (fst r)) of None \<Rightarrow> [] | Some k \<Rightarrow> title k)"
  by (auto simp: overdueRows_def rowKey_def rowTitle_def)

lemma distinct_user_book:
  assumes "distinct (map rowKey sent)" and "set sent \<subseteq> set (overdueRows s now)"
  shows "distinct (map (\<lambda>r. (userId (fst r), bookId (fst r))) sent)"
proof -
  let ?g = "\<lambda>p. (fst p, case findBook s (snd p) of None \<Rightarrow> [] | Some k \<Rightarrow> title k)"
  let ?h = "\<lambda>r. (userId (fst r), bookId (fst r))"
  have "map rowKey sent = map (?g \<circ> ?h) sent"
    using assms(2) by (intro map_cong) (auto simp: rowKey_overdueRows)
  with assms(1) have "distinct (map (?g \<circ> ?h) sent)" by simp
  then have d: "distinct sent" and "inj_on (?g \<circ> ?h) (set sent)"
    by (simp_all add: distinct_map)
  then have "inj_on ?h (set sent)" by (auto dest: inj_on_imageI2)
  with d show ?thesis by (simp add: distinct_map)
qed

lemma sweepLoop_append:
  "sweepLoop fails now (xs @ ys) s =
     (case sweepLoop fails now xs s of
        (s1, sent1, threw1) \<Rightarrow>
          if threw1 then (s1, sent1, True)
          else (case sweepLoop fails now ys s1 of
                  (s2, sent2, threw2) \<Rightarrow> (s2, sent1 @ sent2, threw2)))"
proof (induction xs arbitrary: s)
  case Nil
  then show ?case by (simp split: prod.splits)
next
  case (Cons r xs)
  obtain s1 t where p: "processOverdue fails now r s = (s1, t)"
    by (cases "processOverdue fails now r s") auto
  show ?case by (cases t) (simp_all add: p Cons.IH split: prod.splits)
qed

lemma runTicks_length: "length (snd (runTicks ts s)) = length ts"
proof (induction ts arbitrary: s)
  case Nil
  then show ?case by simp
next
  case (Cons t ts)
  obtain s1 l where c: "checkOverdueBooks (fst t) (snd t) s = (s1, l)"
    by (cases "checkOverdueBooks (fst t) (snd t) s") auto
  obtain s2 ls where r: "runTicks ts s1 = (s2, ls)" by (cases "runTicks ts s1") auto
  from Cons.IH [of s1] r have "length ls = length ts" by simp
  then show ?case by (simp add: c r)
qed

lemma frame_keeps_joined:
  assumes "borrowings s' = flagged F (borrowings s)" "users s' = users s" "books s' = books s"
  shows "joined s' = joined s" and "distinct (map br_id (borrowings s')) = distinct (map br_id (borrowings s))"
  using assms by (simp_all add: joined_def findBook_def findUser_def)

lemma served_tick:
  assumes j: "joined s" and d: "distinct (map br_id (borrowings s))"
  shows "\<exists>s' sent.
      checkOverdueBooks (\<lambda>_. False) now s = (s', Completed (length (overdueRows s now)))
    \<and> borrowings s' = map (\<lambda>b. if isOverdue now b then b\<lparr>br_status := OVERDUE\<rparr> else b) (borrowings s)
    \<and> notifications s' = notifications s @ map (rowNote now) sent
    \<and> set sent \<subseteq> set (overdueRows s now)
    \<and> distinct (map (\<lambda>r. (userId (fst r), bookId (fst r))) sent)
    \<and> list_all (\<lambda>r. \<not> notifiedToday s now r) sent"
proof -
  obtain s' sent threw where
    loop: "sweepLoop (\<lambda>_. False) now (overdueRows s now) s = (s', sent, threw)"
    by (cases "sweepLoop (\<lambda>_. False) now (overdueRows s now) s") auto
  from sweepLoop_served [OF rowsReady_overdueRows [OF j], of now now] loop
  have nt: "threw = False"
    and bs: "borrowings s' = flagged (set (map (br_id \<circ> fst) (overdueRows s now))) (borrowings s)"
    by simp_all
  from sweepLoop_notifications [OF loop]
  have n: "notifications s' = notifications s @ map (rowNote now) sent"
    and dk: "distinct (map rowKey sent)"
    and old: "list_all (\<lambda>r. \<not> notifiedToday s now r) sent"
    and sub: "set sent \<subseteq> set (overdueRows s now)" by simp_all
  have run: "checkOverdueBooks (\<lambda>_. False) now s = (s', Completed (length (overdueRows s now)))"
    by (simp add: checkOverdueBooks_def loop nt)
  have bs': "borrowings s'
      = map (\<lambda>b. if isOverdue now b then b\<lparr>br_status := OVERDUE\<rparr> else b) (borrowings s)"
    unfolding bs by (rule flagged_overdue [OF d])
  from run bs' n sub distinct_user_book [OF dk sub] old show ?thesis by blast
qed

text \<open>
  C7: take a store in which every borrowing has its book and its user on record and
  the keys of the borrowings are distinct, and a run of the check that the store serves.
  The run flags OVERDUE exactly the borrowings that were BORROWED with an expected
  return date before \<open>now\<close>, and leaves the others as they were. The notifications it
  adds are the overdue notifications of some of the rows it found: no two of them for
  the same user and book, and none for a user who already had an overdue notification
  of the day mentioning that title. A second run at once on the store the first one left
  finds nothing to do and changes nothing, and so does any run that finds no borrowing
  newly overdue.
\<close>

theorem overdue_check_idempotent:
  assumes j: "joined s" and d: "distinct (map br_id (borrowings s))"
  shows "(\<exists>s' sent.
        checkOverdueBooks noFailure now s = (s', Completed (length (overdueRows s now)))
      \<and> borrowings s' = map (\<lambda>b. if br_status b = BORROWED \<and> expectedReturnDate b < now
                                  then b\<lparr>br_status := OVERDUE\<rparr> else b) (borrowings s)
      \<and> notifications s' = notifications s @ map (rowNote now) sent
      \<and> set sent \<subseteq> set (overdueRows s now)
      \<and> distinct (map (\<lambda>r. (userId (fst r), bookId (fst r))) sent)
      \<and> list_all (\<lambda>r. \<not> notifiedToday s now r) sent
      \<and> checkOverdueBooks noFailure now s' = (s', Completed 0))
   \<and> (overdueRows s now = [] \<longrightarrow> checkOverdueBooks noFailure now s = (s, Completed 0))"
proof
  from served_tick [OF j d, of now] obtain s' sent where
    r: "checkOverdueBooks (\<lambda>_. False) now s = (s', Completed (length (overdueRows s now)))"
       "borrowings s' = map (\<lambda>b. if isOverdue now b then b\<lparr>br_status := OVERDUE\<rparr> else b) (borrowings s)"
       "notifications s' = notifications s @ map (rowNote now) sent"
       "set sent \<subseteq> set (overdueRows s now)"
       "distinct (map (\<lambda>r. (userId (fst r), bookId (fst r))) sent)"
       "list_all (\<lambda>r. \<not> notifiedToday s now r) sent" by blast
  from none_overdue_after [OF r(2)]
  have again: "checkOverdueBooks (\<lambda>_. False) now s' = (s', Completed 0)"
    by (simp add: checkOverdueBooks_nothing_due)
  from r again
  show "\<exists>s' sent.
        checkOverdueBooks noFailure now s = (s', Completed (length (overdueRows s now)))
      \<and> borrowings s' = map (\<lambda>b. if br_status b = BORROWED \<and> expectedReturnDate b < now
                                  then b\<lparr>br_status := OVERDUE\<rparr> else b) (borrowings s)
      \<and> notifications s' = notifications s @ map (rowNote now) sent
      \<and> set sent \<subseteq> set (overdueRows s now)
      \<and> distinct (map (\<lambda>r. (userId (fst r), bookId (fst r))) sent)
      \<and> list_all (\<lambda>r. \<not> notifiedToday s now r) sent
      \<and> checkOverdueBooks noFailure now s' = (s', Completed 0)"
    unfolding noFailure_def isOverdue_def by blast
next
  show "overdueRows s now = [] \<longrightarrow> checkOverdueBooks noFailure now s = (s, Completed 0)"
    by (simp add: checkOverdueBooks_nothing_due noFailure_def)
qed

lemma tick_frame:
  "\<exists>F. borrowings (fst (checkOverdueBooks f now s)) = flagged F (borrowings s)
      \<and> users (fst (checkOverdueBooks f now s)) = users s
      \<and> books (fst (checkOverdueBooks f now s)) = books s"
proof (cases "f FindOverdue")
  case True
  then have "borrowings (fst (checkOverdueBooks f now s)) = flagged {} (borrowings s)
      \<and> users (fst (checkOverdueBooks f now s)) = users s
      \<and> books (fst (checkOverdueBooks f now s)) = books s"
    by (simp add: checkOverdueBooks_def)
  then show ?thesis by blast
next
  case False
  obtain s' sent threw where
    loop: "sweepLoop f now (overdueRows s now) s = (s', sent, threw)"
    by (cases "sweepLoop f now (overdueRows s now) s") auto
  from sweepLoop_frame [OF loop] False loop show ?thesis
    by (auto simp: checkOverdueBooks_def)
qed

lemma next_tick_catches_up:
  assumes j: "joined s" and d: "distinct (map br_id (borrowings s))"
  shows "overdueRows (fst (runTicks [(f1, t1), (\<lambda>_. False, t2)] s)) t2 = []"
proof -
  obtain s1 l1 where c1: "checkOverdueBooks f1 t1 s = (s1, l1)"
    by (cases "checkOverdueBooks f1 t1 s") auto
  from tick_frame [of f1 t1 s] obtain F where
    f: "borrowings s1 = flagged F (borrowings s)" "users s1 = users s" "books s1 = books s"
    by (auto simp: c1)
  from frame_keeps_joined [OF f] j d
  have j1: "joined s1" and d1: "distinct (map br_id (borrowings s1))" by simp_all
  from served_tick [OF j1 d1, of t2] obtain s2 where
    r: "checkOverdueBooks (\<lambda>_. False) t2 s1 = (s2, Completed (length (overdueRows s1 t2)))"
       "borrowings s2 = map (\<lambda>b. if isOverdue t2 b then b\<lparr>br_status := OVERDUE\<rparr> else b) (borrowings s1)"
    by blast
  have "fst (runTicks [(f1, t1), (\<lambda>_. False, t2)] s) = s2"
    by (simp add: c1 r(1))
  with none_overdue_after [OF r(2)] show ?thesis by simp
qed

lemma failing_turn_ends_tick:
  assumes "\<not> fails FindOverdue" and "overdueRows s now = pre @ r # post"
      and "sweepLoop fails now pre s = (s1, sent1, False)"
      and "processOverdue fails now r s1 = (s2, t)" and "t = Threw \<or> t = ThrewAfterNotifying"
  shows "checkOverdueBooks fails now s = (s2, Caught)
       \<and> (\<exists>F. F \<subseteq> set (map (br_id \<circ> fst) (pre @ [r])) \<and> borrowings s2 = flagged F (borrowings s))"
proof -
  from assms(4,5)
  have one: "sweepLoop fails now (r # post) s1 = (s2, (if t = Threw then [] else [r]), True)"
    and alone: "sweepLoop fails now [r] s1 = (s2, (if t = Threw then [] else [r]), True)"
    by auto
  have run: "checkOverdueBooks fails now s = (s2, Caught)"
    using assms(1)
    by (simp add: checkOverdueBooks_def assms(2) sweepLoop_append assms(3) one
        del: sweepLoop.simps)
  have "sweepLoop fails now (pre @ [r]) s
      = (s2, sent1 @ (if t = Threw then [] else [r]), True)"
    by (simp add: sweepLoop_append assms(3) alone del: sweepLoop.simps)
  from sweepLoop_frame [OF this] run show ?thesis by blast
qed

lemmas sweep_defs = checkOverdueBooks_def overdueRows_def processOverdue_def
  existingNotification_def today_def noFailure_def failAt_def

lemma desk_joined: "joined storeDesk \<and> distinct (map br_id (borrowings storeDesk))"
  by (simp add: joined_def fixture_defs findBook_def findUser_def)

theorem overdue_check_idempotent_witness:
  "map br_status (borrowings (fst (checkOverdueBooks noFailure 1000 storeDesk)))
     = [OVERDUE, BORROWED, OVERDUE, RETURNED, OVERDUE]
 \<and> checkOverdueBooks noFailure 1000 (fst (checkOverdueBooks noFailure 1000 storeDesk))
     = (fst (checkOverdueBooks noFailure 1000 storeDesk), Completed 0)"
proof -
  from desk_joined have j: "joined storeDesk"
    and d: "distinct (map br_id (borrowings storeDesk))" by simp_all
  from overdue_check_idempotent [OF j d, of 1000] obtain s' where
    r: "checkOverdueBooks noFailure 1000 storeDesk
          = (s', Completed (length (overdueRows storeDesk 1000)))"
       "borrowings s' = map (\<lambda>b. if br_status b = BORROWED \<and> expectedReturnDate b < 1000
                                  then b\<lparr>br_status := OVERDUE\<rparr> else b) (borrowings storeDesk)"
       "checkOverdueBooks noFailure 1000 s' = (s', Completed 0)"
    by blast
  from r(2) have "map br_status (borrowings s') = [OVERDUE, BORROWED, OVERDUE, RETURNED, OVERDUE]"
    by (simp add: fixture_defs)
  with r(1) r(3) show ?thesis by simp
qed

lemma desk_notifications:
  "map (\<lambda>n. (n_userId n, n_type n, createdAt n))
     (notifications (fst (checkOverdueBooks noFailure 1000 storeDesk)))
   = [(''ann'', N_OVERDUE, 1000), (''bob'', N_OVERDUE, 1000)]"
  by (simp add: sweep_defs fixture_defs store_defs)

text \<open>
  C8, as the specification words it: a failure while one overdue borrowing is processed
  does not keep the rest of the run from being processed. The loop has no handler of its
  own. Here the run finds \<open>r1\<close> and \<open>r5\<close> overdue, the store refuses the update of \<open>r1\<close>,
  and the run ends in the outer handler with the store as it was: \<open>r5\<close> is still BORROWED
  and has no notification.
\<close>

theorem failed_turn_leaves_rest_unflagged:
  "map (br_id \<circ> fst) (overdueRows storeDesk 1000) = [''r1'', ''r5'']
 \<and> checkOverdueBooks (failAt (UpdateStatus ''r1'')) 1000 storeDesk = (storeDesk, Caught)
 \<and> map_option br_status (findBorrowing storeDesk ''r5'') = Some BORROWED"
  by (simp add: sweep_defs fixture_defs store_defs)

text \<open>
  C8, as the code has it: when a call of the loop throws while a row is processed, the
  run ends there, in the outer handler: the store is the one the failing turn left, in
  which only rows up to that one can have been flagged, and the rows after it wait for a
  later run. Nothing is thrown to the timer: every scheduled run is carried out and ends
  in one of its two log lines, whatever failed before; and a run that the store serves,
  coming after a run in which calls failed, leaves no borrowing that is BORROWED and
  past its date.
\<close>

theorem failed_turn_ends_tick:
  "(\<not> fails FindOverdue \<and> overdueRows s now = pre @ r # post
      \<and> sweepLoop fails now pre s = (s1, sent1, False)
      \<and> processOverdue fails now r s1 = (s2, t) \<and> (t = Threw \<or> t = ThrewAfterNotifying)
     \<longrightarrow> checkOverdueBooks fails now s = (s2, Caught)
        \<and> (\<exists>F. F \<subseteq> set (map (br_id \<circ> fst) (pre @ [r]))
               \<and> borrowings s2 = flagged F (borrowings s)))
 \<and> length (snd (runTicks ts s)) = length ts
 \<and> (joined s \<and> distinct (map br_id (borrowings s))
      \<longrightarrow> overdueRows (fst (runTicks [(f1, t1), (noFailure, t2)] s)) t2 = [])"
proof (intro conjI impI)
  assume h: "\<not> fails FindOverdue \<and> overdueRows s now = pre @ r # post
      \<and> sweepLoop fails now pre s = (s1, sent1, False)
      \<and> processOverdue fails now r s1 = (s2, t) \<and> (t = Threw \<or> t = ThrewAfterNotifying)"
  then have a: "\<not> fails FindOverdue" "overdueRows s now = pre @ r # post"
      "sweepLoop fails now pre s = (s1, sent1, False)"
      "processOverdue fails now r s1 = (s2, t)" "t = Threw \<or> t = ThrewAfterNotifying"
    by simp_all
  from failing_turn_ends_tick [OF a]
  show "checkOverdueBooks fails now s = (s2, Caught)"
    and "\<exists>F. F \<subseteq> set (map (br_id \<circ> fst) (pre @ [r])) \<and> borrowings s2 = flagged F (borrowings s)"
    by simp_all
next
  show "length (snd (runTicks ts s)) = length ts" by (rule runTicks_length)
next
  assume "joined s \<and> distinct (map br_id (borrowings s))"
  then have "joined s" "distinct (map br_id (borrowings s))" by simp_all
  then show "overdueRows (fst (runTicks [(f1, t1), (noFailure, t2)] s)) t2 = []"
    unfolding noFailure_def by (rule next_tick_catches_up)
qed

theorem failed_turn_ends_tick_witness:
  "checkOverdueBooks (failAt (UpdateStatus ''r5'')) 1000 storeDesk
     = (flagRow ''r1'' (createNotification storeDesk
          (rowNote 1000 (mkBorrowing ''r1'' ''ann'' ''b1'' 500 BORROWED,
             Some (mkUser ''ann'' USER ACTIVE), Some (mkBook ''b1'' ''Dune'' 2 0)))), Caught)
 \<and> length (snd (runTicks [(failAt (UpdateStatus ''r5''), 1000), (noFailure, 2000)] storeDesk)) = 2
 \<and> overdueRows (fst (runTicks [(failAt (UpdateStatus ''r5''), 1000), (noFailure, 2000)] storeDesk))
      2000 = []"
proof -
  let ?f = "failAt (UpdateStatus ''r5'')"
  let ?r1 = "(mkBorrowing ''r1'' ''ann'' ''b1'' 500 BORROWED,
             Some (mkUser ''ann'' USER ACTIVE), Some (mkBook ''b1'' ''Dune'' 2 0))"
  let ?r5 = "(mkBorrowing ''r5'' ''bob'' ''b2'' 600 BORROWED,
             Some (mkUser ''bob'' USER ACTIVE), Some (mkBook ''b2'' ''Dune Messiah'' 2 0))"
  let ?s1 = "flagRow ''r1'' (createNotification storeDesk (rowNote 1000 ?r1))"
  have h: "\<not> ?f FindOverdue \<and> overdueRows storeDesk 1000 = [?r1] @ ?r5 # []
      \<and> sweepLoop ?f 1000 [?r1] storeDesk = (?s1, [?r1], False)
      \<and> processOverdue ?f 1000 ?r5 ?s1 = (?s1, Threw) \<and> (Threw = Threw \<or> Threw = ThrewAfterNotifying)"
    by (simp add: sweep_defs fixture_defs store_defs flagRow_def rowNote_def rowTitle_def)
  note T = failed_turn_ends_tick [of ?f storeDesk 1000 "[?r1]" ?r5 "[]" ?s1 "[?r1]" ?s1 Threw
      "[(?f, 1000), (noFailure, 2000)]" ?f 1000 2000]
  from T h have p1: "checkOverdueBooks ?f 1000 storeDesk = (?s1, Caught)" by blast
  from T have p2: "length (snd (runTicks [(?f, 1000), (noFailure, 2000)] storeDesk)) = 2" by simp
  from T desk_joined
  have p3: "overdueRows (fst (runTicks [(?f, 1000), (noFailure, 2000)] storeDesk)) 2000 = []"
    by blast
  from p1 p2 p3 show ?thesis by simp
qed

section \<open>Which operations keep the inventory rule\<close>

text \<open>
  What stands behind C1 beside the worked example: an update that sends both counts can
  store a negative count, and a return adds its copy without looking at the total, so a
  return after an update can pass the total too. The other operations are safe: a borrow
  (where the keys of the books are distinct), an extension, the status sync and the
  overdue check keep the rule.
\<close>

lemma update_stores_negative_copies:
  "snd (updateBook (copiesUpdate ''b1'' (Some 1) (Some (- 1))) store0)
     = Inr (mkBook ''b1'' ''Dune'' 1 (- 1))"
  by (simp add: fixture_defs store_defs updateBook_def isbnTaken_def copiesRejected_def
      numbersFit_def countFits_def wholeInt32_def toNumber_def sentCount_def sentYear_def
      isbnFree_def refsOnRecord_def floor_evals
      applyUpdate_def orKeep_def updatedAudit_def)

lemma return_after_update_exceeds_total:
  "map (\<lambda>b. (copiesTotal b, copiesAvailable b))
     (books (fst (returnBook 3000 (returnOf ''n1'')
        (fst (updateBook (copiesUpdate ''b1'' (Some 1) (Some 1))
           (fst (borrowBook env0 1000 ''n1'' (borrowFor ''admin'' ADMIN (Some ''ann'') ''b1'')
                   store0)))))))
   = [(1, 2)]"
  by (simp add: fixture_defs store_defs borrow_defs Let_def updateBook_def isbnTaken_def
      numbersFit_def countFits_def wholeInt32_def toNumber_def sentCount_def sentYear_def
      isbnFree_def refsOnRecord_def copiesRejected_def applyUpdate_def orKeep_def updatedAudit_def returnBook_def
      markReturned_def giveCopy_def returnedAudit_def returnedNotification_def
      borrowedAudit_def borrowedNotification_def)

lemma extend_keeps_books: "books (fst (extendBorrowing e req s)) = books s"
  by (simp add: extendBorrowing_def updateBorrowingRow_def createAuditLog_def
      split: option.splits)

lemma inventoryOk_books: "books s' = books s \<Longrightarrow> inventoryOk s' = inventoryOk s"
  by (simp add: inventoryOk_def)

lemma sweep_keeps_books: "books (fst (checkOverdueBooks f now s)) = books s"
  using tick_frame [of f now s] by blast

lemma syncLoop_keeps_inventory:
  "inventoryOk s \<Longrightarrow> inventoryOk (fst (syncLoop bks s n))"
proof (induction bks arbitrary: s n)
  case Nil
  then show ?case by simp
next
  case (Cons bk bks)
  show ?case
  proof (cases "b_status bk \<noteq> correctStatus bk")
    case False
    with Cons show ?thesis by simp
  next
    case True
    show ?thesis
    proof (cases "updateBookRow s (b_id bk) (\<lambda>b. b\<lparr>b_status := correctStatus bk\<rparr>)")
      case None
      with True Cons.prems show ?thesis by simp
    next
      case (Some s1)
      with Cons.prems have "inventoryOk s1"
        by (auto simp: updateBookRow_def inventoryOk_def list_all_iff split: option.splits)
      from Cons.IH [OF this] True Some show ?thesis by simp
    qed
  qed
qed

lemma sync_keeps_inventory: "inventoryOk s \<Longrightarrow> inventoryOk (fst (syncBookStatus s))"
  unfolding syncBookStatus_def by (rule syncLoop_keeps_inventory)

lemma find_distinct_key:
  "distinct (map key xs) \<Longrightarrow> find (\<lambda>x. key x = k) xs = Some y \<Longrightarrow> x \<in> set xs \<Longrightarrow> key x = k
   \<Longrightarrow> x = y"
  by (induction xs) (auto split: if_splits)

lemma borrow_keeps_inventory:
  assumes ok: "inventoryOk s" and pk: "distinct (map b_id (books s))"
  shows "inventoryOk (fst (borrowBook e now nid req s))"
proof (cases "snd (borrowBook e now nid req s)")
  case (Inl err)
  then show ?thesis using ok by (simp add: borrowBook_error_unchanged)
next
  case (Inr b)
  then have run: "borrowBook e now nid req s = (fst (borrowBook e now nid req s), Inr b)"
    by (simp add: prod_eq_iff)
  from borrowBook_Inr [OF run] obtain bk where
    bk: "findBook s (bookIdOf req) = Some bk" "0 < copiesAvailable bk"
    and s1: "fst (borrowBook e now nid req s) = borrowedStore e now nid req bk s" by blast
  have "\<And>x. x \<in> set (books s) \<Longrightarrow> b_id x = bookIdOf req \<Longrightarrow> x = bk"
    using find_distinct_key [OF pk, of "bookIdOf req" bk] bk(1) by (simp add: findBook_def)
  with ok bk(2) show ?thesis
    unfolding s1 by (auto simp: inventoryOk_def borrowedStore_def list_all_iff takeCopy_def)
qed

end
